theory Spec2Isabelle
  imports Main "HOL-Library.Word" "HOL-Library.Multiset"
begin

section \<open>The Go library functions the program calls\<close>

text \<open>
  Go strings are byte sequences, and so is \<^typ>\<open>string\<close>. The functions below
  are the ones of packages \<open>strings\<close> and \<open>path/filepath\<close> that
  \<open>compressor.go\<close> calls, on a host whose path separator is the slash.
\<close>

definition HasPrefix :: "string \<Rightarrow> string \<Rightarrow> bool" where
  \<comment> \<open>\<open>strings.HasPrefix(s, prefix)\<close>\<close>
  "HasPrefix s p = (length p \<le> length s \<and> take (length p) s = p)"

definition HasSuffix :: "string \<Rightarrow> string \<Rightarrow> bool" where
  \<comment> \<open>\<open>strings.HasSuffix(s, suffix)\<close>\<close>
  "HasSuffix s x = (length x \<le> length s \<and> drop (length s - length x) s = x)"

definition TrimSuffix :: "string \<Rightarrow> string \<Rightarrow> string" where
  \<comment> \<open>\<open>strings.TrimSuffix(s, suffix)\<close>\<close>
  "TrimSuffix s x = (if HasSuffix s x then take (length s - length x) s else s)"

definition lower_byte :: "char \<Rightarrow> char" where
  "lower_byte c =
     (if 65 \<le> (of_char c :: nat) \<and> (of_char c :: nat) \<le> 90
      then char_of ((of_char c :: nat) + 32) else c)"

definition ToLower :: "string \<Rightarrow> string" where
  \<comment> \<open>\<open>strings.ToLower\<close> on the letters A to Z; every other byte is kept. (Go also
      maps letters beyond ASCII, which no extension of the program's list contains.)\<close>
  "ToLower s = map lower_byte s"

definition is_space :: "char \<Rightarrow> bool" where
  \<comment> \<open>the ASCII white space of \<open>unicode.IsSpace\<close>: tab, line feed, vertical tab, form
      feed, carriage return and blank\<close>
  "is_space c = ((of_char c :: nat) \<in> {9, 10, 11, 12, 13, 32})"

definition TrimSpace :: "string \<Rightarrow> string" where
  \<comment> \<open>\<open>strings.TrimSpace\<close>\<close>
  "TrimSpace s = rev (dropWhile is_space (rev (dropWhile is_space s)))"

fun ext_scan :: "string \<Rightarrow> string \<Rightarrow> string" where
  \<comment> \<open>the loop of \<open>filepath.Ext\<close>, from the last byte backwards: the first argument is
      what is left of the path, reversed; the second is the suffix already passed\<close>
  "ext_scan [] acc = []"
| "ext_scan (c # cs) acc =
     (if c = CHR ''/'' then []
      else if c = CHR ''.'' then c # acc
      else ext_scan cs (c # acc))"

definition Ext :: "string \<Rightarrow> string" where
  \<comment> \<open>\<open>filepath.Ext(path)\<close>: the suffix from the last dot of the last path element\<close>
  "Ext path = ext_scan (rev path) []"

definition Base :: "string \<Rightarrow> string" where
  \<comment> \<open>\<open>filepath.Base(path)\<close>\<close>
  "Base path =
     (if path = [] then ''.''
      else let p = rev (dropWhile (\<lambda>c. c = CHR ''/'') (rev path));
               b = rev (takeWhile (\<lambda>c. c \<noteq> CHR ''/'') (rev p))
           in if b = [] then ''/'' else b)"

definition Join :: "string \<Rightarrow> string \<Rightarrow> string" where
  \<comment> \<open>\<open>filepath.Join(dir, elem)\<close> for a cleaned directory path (what
      \<open>filepath.Abs\<close> and \<open>os.Getwd\<close> give \<open>parseArgs\<close>) and one path
      element: one separator between the two, none after a root\<close>
  "Join dir elem =
     (if dir = [] then elem
      else if last dir = CHR ''/'' then dir @ elem
      else dir @ ''/'' @ elem)"

section \<open>Data model\<close>

text \<open>
  \<open>compressor.go\<close> holds two programs, one after the other. The first takes its
  options with package \<open>flag\<close>, scans with \<open>scanImages\<close>, and its workers send
  a \<open>ConversionResult\<close> for each \<open>ImageJob\<close> back to \<open>main\<close>, which
  keeps the \<open>Stats\<close>. The second has a \<open>Config\<close>, a function \<open>run\<close>,
  an option to replace the sources, and workers that update the \<open>Stats\<close> themselves.
  Both are modelled. Where the two use one name for different things, the name
  of the first program carries the suffix \<open>1\<close>.
\<close>

type_synonym int64 = "64 word"

record Config =
  WorkDir :: string
  Quality :: int
  Skip :: bool
  Replace :: bool

record Job =
  Source :: string
  Dest :: string

record Stats =
  Total :: int64
  Converted :: int64
  Failed :: int64
  SizeBefore :: int64
  SizeAfter :: int64

record ImageJob =
  SourcePath :: string
  DestPath :: string
  OrigSize :: int64

record ConversionResult = ImageJob +
  \<comment> \<open>the first three fields of the struct are those of \<open>ImageJob\<close>\<close>
  NewSize :: int64
  Success :: bool
  Error :: "string option"

record Stats1 =
  \<comment> \<open>the three counters are Go \<open>int\<close>; none exceeds \<open>len(images)\<close>\<close>
  TotalFiles :: int
  ProcessedFiles :: int
  OriginalSize :: int64
  ConvertedSize :: int64
  FailedFiles :: int

record DirEntry =
  \<comment> \<open>what the program reads of an \<open>os.DirEntry\<close>\<close>
  Name :: string
  IsDir :: bool

definition outputDir :: string where
  "outputDir = ''compressed''"

section \<open>Discovery of the jobs\<close>

definition isImage :: "string \<Rightarrow> bool" where
  "isImage name =
     (ToLower (Ext name) \<in> set [''.png'', ''.jpg'', ''.jpeg'', ''.gif'', ''.avif''])"

definition job_for :: "Config \<Rightarrow> string \<Rightarrow> Job" where
  \<comment> \<open>the body of the scan loop of \<open>run\<close> after its three filters: source and
      destination of the job of one entry name\<close>
  "job_for cfg name =
     (let src = Join (WorkDir cfg) name;
          dst = (if Replace cfg
                 then Join (WorkDir cfg) (TrimSuffix name (Ext name) @ ''.webp'')
                 else Join (Join (WorkDir cfg) outputDir)
                        (TrimSuffix name (Ext name) @ ''.webp''))
      in \<lparr>Source = src, Dest = dst\<rparr>)"

fun scan_entries :: "Config \<Rightarrow> DirEntry list \<Rightarrow> Job list" where
  \<comment> \<open>\<open>for _, e := range entries\<close> in \<open>run\<close>; the jobs in the order of their
      \<open>append\<close>\<close>
  "scan_entries cfg [] = []"
| "scan_entries cfg (e # es) =
     (if IsDir e then scan_entries cfg es
      else if HasPrefix (Name e) ''.'' then scan_entries cfg es
      else if \<not> isImage (Name e) then scan_entries cfg es
      else job_for cfg (Name e) # scan_entries cfg es)"

section \<open>The host, the file system and the console\<close>

text \<open>
  The external encoder is a program of the host, not code of the repository: it is a
  parameter of the model. An invocation ends with the error of \<open>cmd.Run\<close> (none
  when the exit status is zero), the text it wrote to its diagnostic stream, and the
  size of the file it left at \<open>dst\<close>, if it left one. The two programs call the
  encoder with different arguments: \<open>ffmpeg -y -i src -qscale q dst\<close> in
  \<open>convert\<close>, \<open>ffmpeg -i src -c:v libwebp -quality q -y dst\<close> in
  \<open>convertToWebP\<close>.
\<close>

record RunResult =
  exitError :: "string option"
  stderrText :: string
  written :: "int64 option"

record Host =
  NumCPU :: nat
  ffmpeg :: "string \<Rightarrow> int \<Rightarrow> string \<Rightarrow> RunResult"
  ffmpeg_libwebp :: "string \<Rightarrow> int \<Rightarrow> string \<Rightarrow> RunResult"

datatype error = FFmpegNotFound | ReadDirFailed | NoEligibleFiles | MkdirFailed

datatype message =
    WorkingDir string  \<comment> \<open>\<open>logInfo("Diretorio de trabalho: %s", cfg.WorkDir)\<close>\<close>
  | PreviewHeader  \<comment> \<open>\<open>logInfo("Preview dos arquivos que serao convertidos")\<close>\<close>
  | PreviewLine string string  \<comment> \<open>one line of the preview: base names of source and destination\<close>
  | Prompt  \<comment> \<open>\<open>fmt.Print("Deseja continuar? (s/N): ")\<close>\<close>
  | Cancelled  \<comment> \<open>\<open>logInfo("Operacao cancelada pelo usuario")\<close>\<close>
  | ConvertError string  \<comment> \<open>\<open>logError("Erro ao converter %s", filepath.Base(job.Source))\<close>\<close>
  | ConvertedLine string string  \<comment> \<open>the completion line: base names of source and destination\<close>
  | Summary Stats  \<comment> \<open>\<open>printStats(stats)\<close>\<close>
  | Finished  \<comment> \<open>\<open>logSuccess("Processo finalizado com sucesso.")\<close>\<close>
  | Fatal error  \<comment> \<open>\<open>logError("%v", err)\<close> in \<open>main\<close>\<close>
  | BadArguments string  \<comment> \<open>the same, for an error of \<open>parseArgs\<close>\<close>
  | QualityOutOfRange  \<comment> \<open>the lines below are those of the first program\<close>
  | Usage
  | GetwdFailed
  | DirNotFound string
  | ScanFailed  \<comment> \<open>\<open>logError("Erro ao escanear imagens: %v")\<close>\<close>
  | NoImages  \<comment> \<open>\<open>logInfo("Nenhuma imagem encontrada (PNG, JPEG, JPG, GIF)")\<close>\<close>
  | FoundImages nat  \<comment> \<open>\<open>logInfo("Encontradas %d imagens para processar")\<close>\<close>
  | QualityLine int
  | PreviewTitle
  | PreviewFile string int64 string  \<comment> \<open>file name, its size, name of the destination\<close>
  | PreviewFolder string  \<comment> \<open>\<open>logInfo("Pasta de destino: %s")\<close>\<close>
  | PreviewSize int64  \<comment> \<open>\<open>logInfo("Tamanho total: %s")\<close>\<close>
  | Prompt1  \<comment> \<open>\<open>fmt.Print("\nDeseja continuar? (S/n): ")\<close>\<close>
  | MkdirError  \<comment> \<open>\<open>logError("Erro ao criar pasta de saida: %v")\<close>\<close>
  | SuccessLine string int64 string int64  \<comment> \<open>names and sizes of source and destination\<close>
  | FailureLine string string  \<comment> \<open>\<open>logError("%s: %v")\<close>: name of the source, the error\<close>
  | Summary1 Stats1  \<comment> \<open>\<open>printSummary(stats)\<close>\<close>

datatype action =
    StatSource "int64 option"  \<comment> \<open>\<open>os.Stat(job.Source)\<close> and the size it gave, if any\<close>
  | Encode "string option" "int64 option"
      \<comment> \<open>\<open>cmd.Run()\<close> inside \<open>convert\<close>: the error \<open>convert\<close> returns, the file written\<close>
  | StatDest "int64 option"  \<comment> \<open>\<open>os.Stat(job.Dest)\<close>\<close>
  | Delete  \<comment> \<open>\<open>os.Remove(job.Source)\<close>\<close>
  | Report message  \<comment> \<open>the line a worker prints about its job\<close>

datatype event =
    Out message  \<comment> \<open>a line the main goroutine prints\<close>
  | Work nat Job action  \<comment> \<open>what worker \<open>i\<close> did for a job\<close>

record World =
  hasFFmpeg :: bool  \<comment> \<open>\<open>exec.LookPath("ffmpeg")\<close> succeeds\<close>
  listing :: "string \<Rightarrow> DirEntry list option"  \<comment> \<open>\<open>os.ReadDir\<close>\<close>
  cwd :: "string option"  \<comment> \<open>\<open>os.Getwd\<close>\<close>
  stdin :: string
  files :: "string \<Rightarrow> int64 option"  \<comment> \<open>the size \<open>os.Stat\<close> reports at a path\<close>
  dirs :: "string set"  \<comment> \<open>the directories that exist\<close>
  trace :: "event list"  \<comment> \<open>console lines and system calls, oldest first\<close>

definition say :: "message \<Rightarrow> World \<Rightarrow> World" where
  "say m w = w\<lparr>trace := trace w @ [Out m]\<rparr>"

definition MkdirAll :: "string \<Rightarrow> World \<Rightarrow> World option" where
  \<comment> \<open>\<open>os.MkdirAll(path, 0755)\<close>: an error when a file is in the way\<close>
  "MkdirAll path w =
     (if files w path \<noteq> None then None else Some (w\<lparr>dirs := insert path (dirs w)\<rparr>))"

definition ReadString :: "string \<Rightarrow> string \<times> bool" where
  \<comment> \<open>\<open>reader.ReadString('\n')\<close>: the input up to and with the first line feed; the flag is
      false (an error) when the input ends before one\<close>
  "ReadString inp =
     (if CHR 0x0A \<in> set inp then (takeWhile (\<lambda>c. c \<noteq> CHR 0x0A) inp @ [CHR 0x0A], True)
      else (inp, False))"

definition confirmExecution :: "World \<Rightarrow> bool \<times> World" where
  "confirmExecution w =
     (let w' = say Prompt w;
          (resp, ok) = ReadString (stdin w')
      in if \<not> ok then (False, w')
         else let resp' = TrimSpace (ToLower resp)
              in (resp' = ''s'' \<or> resp' = ''sim'', w'))"

section \<open>The worker pool\<close>

text \<open>
  The goroutines of \<open>run\<close> are the main goroutine and the workers it starts. Each
  is a small machine whose state is the place it has reached in its code; one step is
  one access to what the goroutines share (the channel, the mutex, a counter, the
  file system, the console). A run of the pool is a schedule: the list of the
  goroutines in the order in which they take their steps, \<open>0\<close> for the main goroutine
  and \<open>i + 1\<close> for worker \<open>i\<close>. A goroutine that is scheduled while it is blocked
  (on the empty open channel, on the held mutex, in \<open>wg.Wait\<close>) does nothing.
\<close>

datatype mpc =
    Spawning nat  \<comment> \<open>\<open>for i := 0; i < workers; i++\<close>, with the value of \<open>i\<close>\<close>
  | Sending "Job list"  \<comment> \<open>\<open>for _, j := range jobs\<close>, with the jobs still to send\<close>
  | Waiting  \<comment> \<open>in \<open>wg.Wait()\<close>\<close>
  | Joined  \<comment> \<open>\<open>wg.Wait()\<close> has returned\<close>

datatype wpc =
    Idle  \<comment> \<open>at \<open>for job := range jobs\<close>\<close>
  | Claimed Job  \<comment> \<open>before \<open>atomic.AddInt64(&stats.Total, 1)\<close>\<close>
  | StatSrc Job  \<comment> \<open>before \<open>os.Stat(job.Source)\<close>\<close>
  | AddBefore Job int64  \<comment> \<open>before \<open>atomic.AddInt64(&stats.SizeBefore, info.Size())\<close>\<close>
  | Locking Job  \<comment> \<open>in \<open>convert\<close>, at \<open>ffmpegMutex.Lock()\<close>\<close>
  | Running Job  \<comment> \<open>holding the mutex, in \<open>cmd.Run()\<close>\<close>
  | Unlocking Job "string option"  \<comment> \<open>at the deferred \<open>ffmpegMutex.Unlock()\<close>, with the error to return\<close>
  | LogFail Job  \<comment> \<open>before \<open>logError\<close>\<close>
  | AddFailed Job  \<comment> \<open>before \<open>atomic.AddInt64(&stats.Failed, 1)\<close>\<close>
  | StatDst Job  \<comment> \<open>before \<open>os.Stat(job.Dest)\<close>\<close>
  | AddAfter Job int64  \<comment> \<open>before \<open>atomic.AddInt64(&stats.SizeAfter, info.Size())\<close>\<close>
  | Removing Job  \<comment> \<open>before \<open>os.Remove(job.Source)\<close>\<close>
  | Printing Job  \<comment> \<open>before \<open>fmt.Printf\<close> of the completion line\<close>
  | AddConverted Job  \<comment> \<open>before \<open>atomic.AddInt64(&stats.Converted, 1)\<close>\<close>
  | Done  \<comment> \<open>returned; the deferred \<open>wg.Done()\<close> has run\<close>

record Pool =
  mainpc :: mpc
  workers :: "wpc list"
  chan :: "Job list"  \<comment> \<open>the buffer of \<open>jobCh\<close>, oldest first\<close>
  closed :: bool
  mutex :: bool  \<comment> \<open>\<open>ffmpegMutex\<close> is held\<close>
  stats :: Stats
  world :: World

definition set_pc :: "nat \<Rightarrow> wpc \<Rightarrow> Pool \<Rightarrow> Pool" where
  "set_pc i q p = p\<lparr>workers := (workers p)[i := q]\<rparr>"

definition record_event :: "event \<Rightarrow> Pool \<Rightarrow> Pool" where
  "record_event e p = p\<lparr>world := (world p)\<lparr>trace := trace (world p) @ [e]\<rparr>\<rparr>"

definition write_file :: "string \<Rightarrow> int64 option \<Rightarrow> Pool \<Rightarrow> Pool" where
  "write_file path out p =
     (case out of None \<Rightarrow> p
      | Some sz \<Rightarrow> p\<lparr>world := (world p)\<lparr>files := (files (world p))(path \<mapsto> sz)\<rparr>\<rparr>)"

definition remove_file :: "string \<Rightarrow> Pool \<Rightarrow> Pool" where
  \<comment> \<open>\<open>os.Remove\<close>; the worker drops its error\<close>
  "remove_file path p = p\<lparr>world := (world p)\<lparr>files := (files (world p))(path := None)\<rparr>\<rparr>"

definition convert_error :: "RunResult \<Rightarrow> string option" where
  \<comment> \<open>what \<open>convert\<close> returns after \<open>cmd.Run()\<close>\<close>
  "convert_error r =
     (case exitError r of None \<Rightarrow> None
      | Some e \<Rightarrow> if stderrText r \<noteq> [] then Some (TrimSpace (stderrText r)) else Some e)"

definition after_sizes :: "Config \<Rightarrow> Job \<Rightarrow> wpc" where
  \<comment> \<open>\<open>if cfg.Replace { _ = os.Remove(job.Source) }\<close>\<close>
  "after_sizes cfg j = (if Replace cfg then Removing j else Printing j)"

fun worker_step :: "Host \<Rightarrow> Config \<Rightarrow> nat \<Rightarrow> wpc \<Rightarrow> Pool \<Rightarrow> Pool" where
  "worker_step host cfg i Idle p =
     (case chan p of
        j # q \<Rightarrow> set_pc i (Claimed j) (p\<lparr>chan := q\<rparr>)
      | [] \<Rightarrow> if closed p then set_pc i Done p else p)"
| "worker_step host cfg i (Claimed j) p =
     set_pc i (StatSrc j) (p\<lparr>stats := (stats p)\<lparr>Total := Total (stats p) + 1\<rparr>\<rparr>)"
| "worker_step host cfg i (StatSrc j) p =
     (case files (world p) (Source j) of
        Some sz \<Rightarrow> set_pc i (AddBefore j sz) (record_event (Work i j (StatSource (Some sz))) p)
      | None \<Rightarrow> set_pc i (Locking j) (record_event (Work i j (StatSource None)) p))"
| "worker_step host cfg i (AddBefore j sz) p =
     set_pc i (Locking j) (p\<lparr>stats := (stats p)\<lparr>SizeBefore := SizeBefore (stats p) + sz\<rparr>\<rparr>)"
| "worker_step host cfg i (Locking j) p =
     (if mutex p then p else set_pc i (Running j) (p\<lparr>mutex := True\<rparr>))"
| "worker_step host cfg i (Running j) p =
     (let r = ffmpeg host (Source j) (Quality cfg) (Dest j);
          err = convert_error r
      in set_pc i (Unlocking j err)
           (record_event (Work i j (Encode err (written r)))
              (write_file (Dest j) (written r) p)))"
| "worker_step host cfg i (Unlocking j err) p =
     set_pc i (case err of Some e \<Rightarrow> LogFail j | None \<Rightarrow> StatDst j) (p\<lparr>mutex := False\<rparr>)"
| "worker_step host cfg i (LogFail j) p =
     set_pc i (AddFailed j)
       (record_event (Work i j (Report (ConvertError (Base (Source j))))) p)"
| "worker_step host cfg i (AddFailed j) p =
     set_pc i Idle (p\<lparr>stats := (stats p)\<lparr>Failed := Failed (stats p) + 1\<rparr>\<rparr>)"
| "worker_step host cfg i (StatDst j) p =
     (case files (world p) (Dest j) of
        Some sz \<Rightarrow> set_pc i (AddAfter j sz) (record_event (Work i j (StatDest (Some sz))) p)
      | None \<Rightarrow> set_pc i (after_sizes cfg j) (record_event (Work i j (StatDest None)) p))"
| "worker_step host cfg i (AddAfter j sz) p =
     set_pc i (after_sizes cfg j)
       (p\<lparr>stats := (stats p)\<lparr>SizeAfter := SizeAfter (stats p) + sz\<rparr>\<rparr>)"
| "worker_step host cfg i (Removing j) p =
     set_pc i (Printing j) (record_event (Work i j Delete) (remove_file (Source j) p))"
| "worker_step host cfg i (Printing j) p =
     set_pc i (AddConverted j)
       (record_event
          (Work i j (Report (ConvertedLine (Base (Source j)) (Base (Dest j))))) p)"
| "worker_step host cfg i (AddConverted j) p =
     set_pc i Idle (p\<lparr>stats := (stats p)\<lparr>Converted := Converted (stats p) + 1\<rparr>\<rparr>)"
| "worker_step host cfg i Done p = p"

fun main_step :: "Host \<Rightarrow> Job list \<Rightarrow> mpc \<Rightarrow> Pool \<Rightarrow> Pool" where
  "main_step host jobs (Spawning i) p =
     (if i < NumCPU host
      then p\<lparr>workers := workers p @ [Idle], mainpc := Spawning (i + 1)\<rparr>
      else p\<lparr>mainpc := Sending jobs\<rparr>)"
| "main_step host jobs (Sending (j # js)) p = p\<lparr>chan := chan p @ [j], mainpc := Sending js\<rparr>"
| "main_step host jobs (Sending []) p = p\<lparr>closed := True, mainpc := Waiting\<rparr>"
| "main_step host jobs Waiting p =
     (if list_all (\<lambda>q. q = Done) (workers p) then p\<lparr>mainpc := Joined\<rparr> else p)"
| "main_step host jobs Joined p = p"

fun step :: "Host \<Rightarrow> Config \<Rightarrow> Job list \<Rightarrow> nat \<Rightarrow> Pool \<Rightarrow> Pool" where
  "step host cfg jobs 0 p = main_step host jobs (mainpc p) p"
| "step host cfg jobs (Suc i) p =
     (if i < length (workers p) then worker_step host cfg i (workers p ! i) p else p)"

definition exec :: "Host \<Rightarrow> Config \<Rightarrow> Job list \<Rightarrow> nat list \<Rightarrow> Pool \<Rightarrow> Pool" where
  "exec host cfg jobs sched p = fold (step host cfg jobs) sched p"

definition no_stats :: Stats where
  \<comment> \<open>\<open>var stats Stats\<close>\<close>
  "no_stats = \<lparr>Total = 0, Converted = 0, Failed = 0, SizeBefore = 0, SizeAfter = 0\<rparr>"

definition init_pool :: "World \<Rightarrow> Pool" where
  "init_pool w =
     \<lparr>mainpc = Spawning 0, workers = [], chan = [], closed = False, mutex = False,
      stats = no_stats, world = w\<rparr>"

section \<open>The orchestrator\<close>

definition preview :: "Job list \<Rightarrow> World \<Rightarrow> World" where
  "preview jobs w =
     fold (\<lambda>j. say (PreviewLine (Base (Source j)) (Base (Dest j)))) jobs (say PreviewHeader w)"

definition run_until_pool ::
  "Config \<Rightarrow> World \<Rightarrow> (error option \<times> World) + (Job list \<times> World)" where
  \<comment> \<open>\<open>run\<close> from its first line to the end of \<open>if !cfg.Skip\<close>: \<open>Inl\<close> is what
      \<open>run\<close> returns when it returns there, \<open>Inr\<close> the jobs and the world with
      which it goes on\<close>
  "run_until_pool cfg w0 =
     (let w = say (WorkingDir (WorkDir cfg)) w0
      in if \<not> hasFFmpeg w then Inl (Some FFmpegNotFound, w)
         else case listing w (WorkDir cfg) of
           None \<Rightarrow> Inl (Some ReadDirFailed, w)
         | Some entries \<Rightarrow>
             let jobs = scan_entries cfg entries
             in if jobs = [] then Inl (Some NoEligibleFiles, w)
                else case (if \<not> Replace cfg then MkdirAll (Join (WorkDir cfg) outputDir) w
                           else Some w) of
                  None \<Rightarrow> Inl (Some MkdirFailed, w)
                | Some w1 \<Rightarrow>
                    let (go, w2) = (if \<not> Skip cfg then confirmExecution (preview jobs w1)
                                    else (True, w1))
                    in if \<not> go then Inl (None, say Cancelled w2)
                       else Inr (jobs, w2))"

definition run :: "Host \<Rightarrow> nat list \<Rightarrow> Config \<Rightarrow> World \<Rightarrow> (error option \<times> World) option" where
  \<comment> \<open>the rest of \<open>run\<close>, from \<open>var stats Stats\<close>; \<open>None\<close>: under this schedule
      \<open>wg.Wait()\<close> has not returned\<close>
  "run host sched cfg w0 =
     (case run_until_pool cfg w0 of
        Inl r \<Rightarrow> Some r
      | Inr (jobs, w2) \<Rightarrow>
          let p = exec host cfg jobs sched (init_pool w2)
          in if mainpc p = Joined
             then Some (None, say Finished (say (Summary (stats p)) (world p)))
             else None)"

definition main :: "Host \<Rightarrow> nat list \<Rightarrow> string + Config \<Rightarrow> World \<Rightarrow> (int \<times> World) option" where
  \<comment> \<open>the exit status and the world the process leaves; the third argument is what
      \<open>parseArgs\<close> returned\<close>
  "main host sched parsed w =
     (case parsed of
        Inl msg \<Rightarrow> Some (1, say (BadArguments msg) w)
      | Inr cfg \<Rightarrow>
          (case run host sched cfg w of
             None \<Rightarrow> None
           | Some (Some e, w') \<Rightarrow> Some (1, say (Fatal e) w')
           | Some (None, w') \<Rightarrow> Some (0, w')))"

section \<open>The first program\<close>

subsection \<open>Scan, preview and confirmation\<close>

definition validExts :: "string \<Rightarrow> bool" where
  \<comment> \<open>the map of \<open>scanImages\<close>; a key that is absent reads as \<open>false\<close>\<close>
  "validExts ext = (ext \<in> set [''.png'', ''.jpg'', ''.jpeg'', ''.gif''])"

fun scan_loop :: "string \<Rightarrow> DirEntry list \<Rightarrow> string list" where
  \<comment> \<open>\<open>for _, entry := range entries\<close> in \<open>scanImages\<close>\<close>
  "scan_loop dir [] = []"
| "scan_loop dir (entry # entries) =
     (if IsDir entry then scan_loop dir entries
      else if validExts (ToLower (Ext (Name entry)))
           then Join dir (Name entry) # scan_loop dir entries
           else scan_loop dir entries)"

definition scanImages :: "string \<Rightarrow> World \<Rightarrow> string list option" where
  \<comment> \<open>\<open>None\<close>: the error of \<open>os.ReadDir\<close>\<close>
  "scanImages dir w =
     (case listing w dir of None \<Rightarrow> None | Some entries \<Rightarrow> Some (scan_loop dir entries))"

definition destFilename :: "string \<Rightarrow> string" where
  \<comment> \<open>\<open>nameWithoutExt + ".webp"\<close>, in \<open>main\<close> and in \<open>showPreview\<close>\<close>
  "destFilename imgPath =
     (let filename = Base imgPath
      in TrimSuffix filename (Ext filename) @ ''.webp'')"

definition preview_line :: "string \<Rightarrow> World \<times> int64 \<Rightarrow> World \<times> int64" where
  \<comment> \<open>the body of the loop of \<open>showPreview\<close>, on the console and \<open>totalSize\<close>\<close>
  "preview_line imgPath st =
     (case st of (w, totalSize) \<Rightarrow>
        (case files w imgPath of
           None \<Rightarrow> (w, totalSize)
         | Some sz \<Rightarrow>
             (say (PreviewFile (Base imgPath) sz (destFilename imgPath)) w, totalSize + sz)))"

definition showPreview :: "string list \<Rightarrow> string \<Rightarrow> World \<Rightarrow> World" where
  "showPreview images outputPath w =
     (case fold preview_line images (say PreviewTitle w, 0) of
        (w', totalSize) \<Rightarrow> say (PreviewSize totalSize) (say (PreviewFolder outputPath) w'))"

definition confirmExecution1 :: "World \<Rightarrow> bool \<times> World" where
  "confirmExecution1 w =
     (let w' = say Prompt1 w;
          (response, ok) = ReadString (stdin w')
      in if \<not> ok then (False, w')
         else let response' = TrimSpace (ToLower response)
              in (response' = [] \<or> response' = ''s'' \<or> response' = ''sim'', w'))"

definition path_exists :: "World \<Rightarrow> string \<Rightarrow> bool" where
  \<comment> \<open>\<open>os.Stat(path)\<close> gives no error for which \<open>os.IsNotExist\<close> holds\<close>
  "path_exists w path = (path \<in> dirs w \<or> files w path \<noteq> None)"

definition main1_until_pool ::
  "int \<Rightarrow> bool \<Rightarrow> string list \<Rightarrow> World \<Rightarrow> (int \<times> World) + (string list \<times> string \<times> World)" where
  \<comment> \<open>\<open>main\<close> from \<open>flag.Parse()\<close>, which gave \<open>quality\<close>, \<open>skip\<close> and
      \<open>flag.Args()\<close>, to \<open>os.MkdirAll\<close>: \<open>Inl\<close> is the exit status with which
      the process ends there, \<open>Inr\<close> the images, the output path and the world with
      which \<open>main\<close> goes on. The directory argument is a cleaned path.\<close>
  "main1_until_pool quality skip args w =
     (if quality < 1 \<or> quality > 100 then Inl (1, say QualityOutOfRange w)
      else case args of
        [] \<Rightarrow> Inl (1, say Usage w)
      | arg # _ \<Rightarrow>
          (case (if arg = ''.'' then cwd w else Some arg) of
             None \<Rightarrow> Inl (1, say GetwdFailed w)
           | Some inputDir \<Rightarrow>
               if \<not> path_exists w inputDir then Inl (1, say (DirNotFound inputDir) w)
               else let outputPath = Join inputDir outputDir
                    in case scanImages inputDir w of
                      None \<Rightarrow> Inl (1, say ScanFailed w)
                    | Some images \<Rightarrow>
                        if images = [] then Inl (0, say NoImages w)
                        else let w1 = say (QualityLine quality)
                                        (say (FoundImages (length images)) w);
                                 (go, w2) =
                                   (if \<not> skip
                                    then confirmExecution1 (showPreview images outputPath w1)
                                    else (True, w1))
                             in if \<not> go then Inl (0, say Cancelled w2)
                                else case MkdirAll outputPath w2 of
                                  None \<Rightarrow> Inl (1, say MkdirError w2)
                                | Some w3 \<Rightarrow> Inr (images, outputPath, w3)))"

subsection \<open>The worker pool of the first program\<close>

text \<open>
  The goroutines are the main goroutine, the workers, and the one that closes
  \<open>results\<close> after \<open>wg.Wait()\<close>. In a schedule, \<open>0\<close> is the main goroutine,
  \<open>1\<close> the closing one and \<open>i + 2\<close> worker \<open>i\<close>. Both channels have the
  capacity \<open>len(images)\<close>; a send on a full channel blocks. Only the main goroutine
  prints, and \<open>stats\<close> is a variable of \<open>main\<close>.
\<close>

datatype mpc1 =
    Spawning1 nat  \<comment> \<open>\<open>for i := 0; i < workers; i++\<close>\<close>
  | Dispatching "string list"
      \<comment> \<open>\<open>for _, imgPath := range images\<close>, before \<open>os.Stat(imgPath)\<close>, with
          the images still to visit\<close>
  | Offering ImageJob "string list"  \<comment> \<open>at \<open>jobs <- ImageJob{...}\<close>\<close>
  | Launching  \<comment> \<open>after \<open>close(jobs)\<close>, before \<open>go func() {...}()\<close>\<close>
  | Collecting  \<comment> \<open>at \<open>for result := range results\<close>\<close>
  | Logging ConversionResult  \<comment> \<open>the counters are updated; before the line of the result\<close>
  | Summarising  \<comment> \<open>before \<open>printSummary(stats)\<close>\<close>
  | Returned

datatype cpc =
    Unstarted
  | WaitingWG  \<comment> \<open>in \<open>wg.Wait()\<close>\<close>
  | ClosingResults  \<comment> \<open>before \<open>close(results)\<close>\<close>
  | Exited

datatype wpc1 =
    Idle1  \<comment> \<open>at \<open>for job := range jobs\<close>\<close>
  | Locking1 ImageJob  \<comment> \<open>in \<open>convertToWebP\<close>, at \<open>ffmpegMutex.Lock()\<close>\<close>
  | Running1 ImageJob  \<comment> \<open>holding the mutex, in \<open>cmd.Run()\<close>\<close>
  | Statting1 ImageJob  \<comment> \<open>holding the mutex, before \<open>os.Stat(destPath)\<close>\<close>
  | Unlocking1 ImageJob "string + int64"
      \<comment> \<open>at the deferred \<open>ffmpegMutex.Unlock()\<close>, with what \<open>convertToWebP\<close> returns\<close>
  | Sending1 ConversionResult  \<comment> \<open>at \<open>results <- result\<close>\<close>
  | Done1  \<comment> \<open>returned; the deferred \<open>wg.Done()\<close> has run\<close>

record Pool1 =
  mainpc1 :: mpc1
  closer :: cpc
  workers1 :: "wpc1 list"
  jobs_ch :: "ImageJob list"  \<comment> \<open>the buffer of \<open>jobs\<close>, oldest first\<close>
  jobs_closed :: bool
  results_ch :: "ConversionResult list"  \<comment> \<open>the buffer of \<open>results\<close>\<close>
  results_closed :: bool
  mutex1 :: bool
  stats1 :: Stats1
  sent :: "ImageJob list"
      \<comment> \<open>not a variable of the program: the jobs sent so far, for the statements below\<close>
  world1 :: World

definition job_of :: "ImageJob \<Rightarrow> Job" where
  \<comment> \<open>the two paths of a job, as they appear in an event\<close>
  "job_of j = \<lparr>Source = SourcePath j, Dest = DestPath j\<rparr>"

definition set_pc1 :: "nat \<Rightarrow> wpc1 \<Rightarrow> Pool1 \<Rightarrow> Pool1" where
  "set_pc1 i q p = p\<lparr>workers1 := (workers1 p)[i := q]\<rparr>"

definition happens :: "event \<Rightarrow> World \<Rightarrow> World" where
  "happens e w = w\<lparr>trace := trace w @ [e]\<rparr>"

definition leaves :: "string \<Rightarrow> int64 option \<Rightarrow> World \<Rightarrow> World" where
  \<comment> \<open>the file an invocation of the encoder wrote, if it wrote one\<close>
  "leaves path out w = (case out of None \<Rightarrow> w | Some sz \<Rightarrow> w\<lparr>files := (files w)(path \<mapsto> sz)\<rparr>)"

definition on_world1 :: "(World \<Rightarrow> World) \<Rightarrow> Pool1 \<Rightarrow> Pool1" where
  "on_world1 f p = p\<lparr>world1 := f (world1 p)\<rparr>"

definition run_ffmpeg1 :: "Host \<Rightarrow> World \<Rightarrow> string \<Rightarrow> int \<Rightarrow> string \<Rightarrow> RunResult" where
  \<comment> \<open>\<open>cmd.Run()\<close> in \<open>convertToWebP\<close>. The first program never looks for the
      encoder (\<open>checkFFmpeg\<close> is not called): without it every \<open>cmd.Run()\<close> fails\<close>
  "run_ffmpeg1 host w src q dst =
     (if hasFFmpeg w then ffmpeg_libwebp host src q dst
      else \<lparr>exitError = Some ''exec: \"ffmpeg\": executable file not found in $PATH'',
            stderrText = [], written = None\<rparr>)"

definition ffmpeg_error :: "string \<Rightarrow> string \<Rightarrow> string" where
  \<comment> \<open>\<open>fmt.Errorf("ffmpeg error: %v - %s", err, stderr.String())\<close>\<close>
  "ffmpeg_error e out = ''ffmpeg error: '' @ e @ '' - '' @ out"

definition stat_error :: "string \<Rightarrow> string" where
  \<comment> \<open>the text of the error of \<open>os.Stat\<close> for a path that does not exist\<close>
  "stat_error path = ''stat '' @ path @ '': no such file or directory''"

definition result_of :: "ImageJob \<Rightarrow> string + int64 \<Rightarrow> ConversionResult" where
  \<comment> \<open>\<open>result\<close> in \<open>worker\<close>, after the call of \<open>convertToWebP\<close>\<close>
  "result_of job r =
     (case r of
        Inl err \<Rightarrow>
          \<lparr>SourcePath = SourcePath job, DestPath = DestPath job, OrigSize = OrigSize job,
           NewSize = 0, Success = False, Error = Some err\<rparr>
      | Inr newSize \<Rightarrow>
          \<lparr>SourcePath = SourcePath job, DestPath = DestPath job, OrigSize = OrigSize job,
           NewSize = newSize, Success = True, Error = None\<rparr>)"

fun worker_step1 :: "Host \<Rightarrow> int \<Rightarrow> nat \<Rightarrow> nat \<Rightarrow> wpc1 \<Rightarrow> Pool1 \<Rightarrow> Pool1" where
  \<comment> \<open>the third argument is the capacity of \<open>results\<close>\<close>
  "worker_step1 host quality cap i Idle1 p =
     (case jobs_ch p of
        job # q \<Rightarrow> set_pc1 i (Locking1 job) (p\<lparr>jobs_ch := q\<rparr>)
      | [] \<Rightarrow> if jobs_closed p then set_pc1 i Done1 p else p)"
| "worker_step1 host quality cap i (Locking1 job) p =
     (if mutex1 p then p else set_pc1 i (Running1 job) (p\<lparr>mutex1 := True\<rparr>))"
| "worker_step1 host quality cap i (Running1 job) p =
     (let r = run_ffmpeg1 host (world1 p) (SourcePath job) quality (DestPath job)
      in case exitError r of
           Some e \<Rightarrow>
             set_pc1 i (Unlocking1 job (Inl (ffmpeg_error e (stderrText r))))
               (on_world1
                  (happens (Work i (job_of job)
                     (Encode (Some (ffmpeg_error e (stderrText r))) (written r))) \<circ>
                   leaves (DestPath job) (written r)) p)
         | None \<Rightarrow>
             set_pc1 i (Statting1 job)
               (on_world1
                  (happens (Work i (job_of job) (Encode None (written r))) \<circ>
                   leaves (DestPath job) (written r)) p))"
| "worker_step1 host quality cap i (Statting1 job) p =
     (case files (world1 p) (DestPath job) of
        None \<Rightarrow>
          set_pc1 i (Unlocking1 job (Inl (stat_error (DestPath job))))
            (on_world1 (happens (Work i (job_of job) (StatDest None))) p)
      | Some sz \<Rightarrow>
          set_pc1 i (Unlocking1 job (Inr sz))
            (on_world1 (happens (Work i (job_of job) (StatDest (Some sz)))) p))"
| "worker_step1 host quality cap i (Unlocking1 job r) p =
     set_pc1 i (Sending1 (result_of job r)) (p\<lparr>mutex1 := False\<rparr>)"
| "worker_step1 host quality cap i (Sending1 result) p =
     (if length (results_ch p) < cap
      then set_pc1 i Idle1 (p\<lparr>results_ch := results_ch p @ [result]\<rparr>)
      else p)"
| "worker_step1 host quality cap i Done1 p = p"

definition count_result :: "ConversionResult \<Rightarrow> Stats1 \<Rightarrow> Stats1" where
  \<comment> \<open>the updates of \<open>stats\<close> in the body of \<open>for result := range results\<close>\<close>
  "count_result result s =
     (if Success result
      then s\<lparr>ProcessedFiles := ProcessedFiles s + 1,
             OriginalSize := OriginalSize s + OrigSize result,
             ConvertedSize := ConvertedSize s + NewSize result\<rparr>
      else s\<lparr>FailedFiles := FailedFiles s + 1\<rparr>)"

definition result_line :: "ConversionResult \<Rightarrow> message" where
  \<comment> \<open>the line of the same body; the reduction it also shows is left out\<close>
  "result_line result =
     (if Success result
      then SuccessLine (Base (SourcePath result)) (OrigSize result)
             (Base (DestPath result)) (NewSize result)
      else FailureLine (Base (SourcePath result))
             (case Error result of None \<Rightarrow> [] | Some e \<Rightarrow> e))"

fun main_step1 :: "Host \<Rightarrow> string list \<Rightarrow> string \<Rightarrow> mpc1 \<Rightarrow> Pool1 \<Rightarrow> Pool1" where
  "main_step1 host images outputPath (Spawning1 i) p =
     (if i < NumCPU host
      then p\<lparr>workers1 := workers1 p @ [Idle1], mainpc1 := Spawning1 (i + 1)\<rparr>
      else p\<lparr>mainpc1 := Dispatching images\<rparr>)"
| "main_step1 host images outputPath (Dispatching (imgPath # rest)) p =
     (case files (world1 p) imgPath of
        None \<Rightarrow> p\<lparr>mainpc1 := Dispatching rest\<rparr>
      | Some sz \<Rightarrow>
          p\<lparr>mainpc1 :=
              Offering \<lparr>SourcePath = imgPath,
                        DestPath = Join outputPath (destFilename imgPath),
                        OrigSize = sz\<rparr> rest\<rparr>)"
| "main_step1 host images outputPath (Offering job rest) p =
     (if length (jobs_ch p) < length images
      then p\<lparr>jobs_ch := jobs_ch p @ [job], sent := sent p @ [job], mainpc1 := Dispatching rest\<rparr>
      else p)"
| "main_step1 host images outputPath (Dispatching []) p =
     p\<lparr>jobs_closed := True, mainpc1 := Launching\<rparr>"
| "main_step1 host images outputPath Launching p =
     p\<lparr>closer := WaitingWG,
       stats1 := \<lparr>TotalFiles = int (length images), ProcessedFiles = 0, OriginalSize = 0,
                  ConvertedSize = 0, FailedFiles = 0\<rparr>,
       mainpc1 := Collecting\<rparr>"
| "main_step1 host images outputPath Collecting p =
     (case results_ch p of
        result # q \<Rightarrow>
          p\<lparr>results_ch := q, stats1 := count_result result (stats1 p),
            mainpc1 := Logging result\<rparr>
      | [] \<Rightarrow> if results_closed p then p\<lparr>mainpc1 := Summarising\<rparr> else p)"
| "main_step1 host images outputPath (Logging result) p =
     on_world1 (say (result_line result)) (p\<lparr>mainpc1 := Collecting\<rparr>)"
| "main_step1 host images outputPath Summarising p =
     on_world1 (say (Summary1 (stats1 p))) (p\<lparr>mainpc1 := Returned\<rparr>)"
| "main_step1 host images outputPath Returned p = p"

fun closer_step :: "cpc \<Rightarrow> Pool1 \<Rightarrow> Pool1" where
  \<comment> \<open>\<open>go func() { wg.Wait(); close(results) }()\<close>\<close>
  "closer_step Unstarted p = p"
| "closer_step WaitingWG p =
     (if list_all (\<lambda>q. q = Done1) (workers1 p) then p\<lparr>closer := ClosingResults\<rparr> else p)"
| "closer_step ClosingResults p = p\<lparr>results_closed := True, closer := Exited\<rparr>"
| "closer_step Exited p = p"

fun step1 :: "Host \<Rightarrow> int \<Rightarrow> string list \<Rightarrow> string \<Rightarrow> nat \<Rightarrow> Pool1 \<Rightarrow> Pool1" where
  "step1 host quality images outputPath 0 p = main_step1 host images outputPath (mainpc1 p) p"
| "step1 host quality images outputPath (Suc 0) p = closer_step (closer p) p"
| "step1 host quality images outputPath (Suc (Suc i)) p =
     (if i < length (workers1 p)
      then worker_step1 host quality (length images) i (workers1 p ! i) p
      else p)"

definition exec1 ::
  "Host \<Rightarrow> int \<Rightarrow> string list \<Rightarrow> string \<Rightarrow> nat list \<Rightarrow> Pool1 \<Rightarrow> Pool1" where
  "exec1 host quality images outputPath sched p =
     fold (step1 host quality images outputPath) sched p"

definition init_pool1 :: "World \<Rightarrow> Pool1" where
  "init_pool1 w =
     \<lparr>mainpc1 = Spawning1 0, closer = Unstarted, workers1 = [], jobs_ch = [],
      jobs_closed = False, results_ch = [], results_closed = False, mutex1 = False,
      stats1 = \<lparr>TotalFiles = 0, ProcessedFiles = 0, OriginalSize = 0, ConvertedSize = 0,
                FailedFiles = 0\<rparr>,
      sent = [], world1 = w\<rparr>"

definition main1 ::
  "Host \<Rightarrow> nat list \<Rightarrow> int \<Rightarrow> bool \<Rightarrow> string list \<Rightarrow> World \<Rightarrow> (int \<times> World) option" where
  \<comment> \<open>the exit status and the world the process leaves; \<open>None\<close>: under this schedule
      \<open>main\<close> has not returned\<close>
  "main1 host sched quality skip args w =
     (case main1_until_pool quality skip args w of
        Inl r \<Rightarrow> Some r
      | Inr (images, outputPath, w3) \<Rightarrow>
          let p = exec1 host quality images outputPath sched (init_pool1 w3)
          in if mainpc1 p = Returned then Some (0, world1 p) else None)"

subsection \<open>The specification's reading of eligibility\<close>


definition same_ignoring_case :: "string \<Rightarrow> string \<Rightarrow> bool" where
  "same_ignoring_case x y = (map lower_byte x = map lower_byte y)"

definition extension_is :: "string \<Rightarrow> string \<Rightarrow> bool" where
  \<comment> \<open>\<open>x\<close> is what follows the last dot of \<open>name\<close>, inside its last path element\<close>
  "extension_is name x =
     (\<exists>b. name = b @ ''.'' @ x \<and> CHR ''.'' \<notin> set x \<and> CHR ''/'' \<notin> set x)"


definition supported_extensions1 :: "string list" where
  "supported_extensions1 = [''png'', ''jpg'', ''jpeg'', ''gif'']"

definition eligible_spec1 :: "DirEntry \<Rightarrow> bool" where
  "eligible_spec1 e =
     (\<not> IsDir e \<and>
      (\<exists>x y. extension_is (Name e) x \<and> y \<in> set supported_extensions1 \<and>
             same_ignoring_case x y))"

subsection \<open>Words of the claims about a run\<close>

definition answer :: "World \<Rightarrow> string option" where
  \<comment> \<open>the line typed at the prompt, without the white space around it and in lower
      case; \<open>None\<close> when the input ends before the end of a line\<close>
  "answer w =
     (case ReadString (stdin w) of
        (response, ok) \<Rightarrow> if ok then Some (TrimSpace (ToLower response)) else None)"

definition prints :: "World \<Rightarrow> World \<Rightarrow> bool" where
  \<comment> \<open>the second world is the first one after some lines on the console\<close>
  "prints w w' \<longleftrightarrow> (\<exists>ms. w' = w\<lparr>trace := trace w @ map Out ms\<rparr>)"

definition target :: "string list \<Rightarrow> World \<Rightarrow> string option" where
  \<comment> \<open>\<open>inputDir\<close> in the first program, when there is one\<close>
  "target args w =
     (case args of [] \<Rightarrow> None | arg # rest \<Rightarrow> if arg = ''.'' then cwd w else Some arg)"

definition invocation_fails :: "Host \<Rightarrow> Config \<Rightarrow> Job \<Rightarrow> bool" where
  "invocation_fails host cfg j \<longleftrightarrow>
     convert_error (ffmpeg host (Source j) (Quality cfg) (Dest j)) \<noteq> None"

definition tell :: "(event \<Rightarrow> 'a::comm_monoid_add) \<Rightarrow> event list \<Rightarrow> 'a" where
  "tell f tr = sum_list (map f tr)"




definition events_since :: "World \<Rightarrow> Pool \<Rightarrow> event list" where
  "events_since w p = drop (length (trace w)) (trace (world p))"

fun effect :: "event \<Rightarrow> (string \<Rightarrow> int64 option) \<Rightarrow> (string \<Rightarrow> int64 option)" where
  "effect (Work i j (Encode err (Some sz))) f = f(Dest j \<mapsto> sz)"
| "effect (Work i j Delete) f = f(Source j := None)"
| "effect e f = f"

definition replay :: "event list \<Rightarrow> (string \<Rightarrow> int64 option) \<Rightarrow> (string \<Rightarrow> int64 option)" where
  "replay tr f = fold effect tr f"

fun writes :: "string \<Rightarrow> event \<Rightarrow> bool" where
  "writes s (Work i j (Encode err (Some sz))) = (Dest j = s)"
| "writes s _ = False"


definition size_of :: "int64 option \<Rightarrow> int64" where
  "size_of r = (case r of None \<Rightarrow> 0 | Some sz \<Rightarrow> sz)"

fun sees :: "(Job \<Rightarrow> int64 option) \<Rightarrow> (Job \<Rightarrow> int64 option) \<Rightarrow> event \<Rightarrow> bool" where
  "sees b a (Work i j (StatSource r)) = (b j = r)"
| "sees b a (Work i j (StatDest r)) = (a j = r)"
| "sees b a _ = True"

definition fixed_sizes :: "(Job \<Rightarrow> int64 option) \<Rightarrow> (Job \<Rightarrow> int64 option) \<Rightarrow> event list \<Rightarrow> bool" where
  "fixed_sizes b a tr = list_all (sees b a) tr"

fun holds_mutex :: "wpc \<Rightarrow> bool" where
  "holds_mutex (Running j) = True"
| "holds_mutex (Unlocking j err) = True"
| "holds_mutex _ = False"

fun in_flight :: "wpc \<Rightarrow> bool" where
  "in_flight (Running j) = True"
| "in_flight _ = False"

fun own :: "nat \<Rightarrow> event list \<Rightarrow> (Job \<times> action) list" where
  "own i [] = []"
| "own i (Work k j a # tr) = (if k = i then (j, a) # own i tr else own i tr)"
| "own i (Out m # tr) = own i tr"

datatype phase = Fresh | Measured Job | Encoded Job bool | Sized Job | Deleted Job

fun advance :: "Config \<Rightarrow> phase \<Rightarrow> Job \<Rightarrow> action \<Rightarrow> phase option" where
  "advance cfg Fresh j (StatSource r) = Some (Measured j)"
| "advance cfg (Measured j') j (Encode err out) =
     (if j = j' then Some (Encoded j (err = None)) else None)"
| "advance cfg (Encoded j' ok) j (StatDest r) = (if j = j' \<and> ok then Some (Sized j) else None)"
| "advance cfg (Sized j') j Delete = (if j = j' \<and> Replace cfg then Some (Deleted j) else None)"
| "advance cfg (Sized j') j (Report m) = (if j = j' \<and> \<not> Replace cfg then Some Fresh else None)"
| "advance cfg (Deleted j') j (Report m) = (if j = j' then Some Fresh else None)"
| "advance cfg (Encoded j' ok) j (Report m) = (if j = j' \<and> \<not> ok then Some Fresh else None)"
| "advance cfg _ _ _ = None"

fun follows :: "Config \<Rightarrow> phase \<Rightarrow> (Job \<times> action) list \<Rightarrow> phase option" where
  "follows cfg ph [] = Some ph"
| "follows cfg ph ((j, a) # xs) =
     (case advance cfg ph j a of None \<Rightarrow> None | Some ph' \<Rightarrow> follows cfg ph' xs)"

fun stage :: "wpc \<Rightarrow> nat" where
  "stage Idle = 0"
| "stage (Claimed j) = 1"
| "stage (StatSrc j) = 2"
| "stage (AddBefore j sz) = 3"
| "stage (Locking j) = 4"
| "stage (Running j) = 5"
| "stage (Unlocking j err) = 6"
| "stage (LogFail j) = 7"
| "stage (AddFailed j) = 8"
| "stage (StatDst j) = 7"
| "stage (AddAfter j sz) = 8"
| "stage (Removing j) = 9"
| "stage (Printing j) = 10"
| "stage (AddConverted j) = 11"
| "stage Done = 0"

fun holds :: "wpc \<Rightarrow> Job option" where
  "holds Idle = None"
| "holds (Claimed j) = Some j"
| "holds (StatSrc j) = Some j"
| "holds (AddBefore j sz) = Some j"
| "holds (Locking j) = Some j"
| "holds (Running j) = Some j"
| "holds (Unlocking j err) = Some j"
| "holds (LogFail j) = Some j"
| "holds (AddFailed j) = Some j"
| "holds (StatDst j) = Some j"
| "holds (AddAfter j sz) = Some j"
| "holds (Removing j) = Some j"
| "holds (Printing j) = Some j"
| "holds (AddConverted j) = Some j"
| "holds Done = None"

fun verdict :: "wpc \<Rightarrow> bool option" where
  "verdict (Unlocking j err) = Some (err \<noteq> None)"
| "verdict (LogFail j) = Some True"
| "verdict (AddFailed j) = Some True"
| "verdict (StatDst j) = Some False"
| "verdict (AddAfter j sz) = Some False"
| "verdict (Removing j) = Some False"
| "verdict (Printing j) = Some False"
| "verdict (AddConverted j) = Some False"
| "verdict _ = None"

definition on_path :: "bool option \<Rightarrow> bool \<Rightarrow> bool" where
  "on_path path failed = (case path of None \<Rightarrow> True | Some b \<Rightarrow> failed = b)"

definition jdue :: "(Job \<Rightarrow> bool) \<Rightarrow> bool option \<Rightarrow> (Job \<Rightarrow> 'a) \<Rightarrow> Job \<Rightarrow> 'a::comm_monoid_add" where
  "jdue fl path u j = (if on_path path (fl j) then u j else 0)"

definition due ::
  "(Job \<Rightarrow> bool) \<Rightarrow> bool option \<Rightarrow> nat \<Rightarrow> (Job \<Rightarrow> 'a) \<Rightarrow> wpc \<Rightarrow> 'a::comm_monoid_add" where
  "due fl path k u q =
     (case holds q of
        None \<Rightarrow> 0
      | Some j \<Rightarrow>
          if stage q \<le> k \<and> on_path path (case verdict q of None \<Rightarrow> fl j | Some v \<Rightarrow> v)
          then u j else 0)"

definition wsum :: "('q \<Rightarrow> 'a::comm_monoid_add) \<Rightarrow> 'q list \<Rightarrow> 'a" where
  "wsum f ws = sum_list (map f ws)"

definition wrest :: "('q \<Rightarrow> 'a::comm_monoid_add) \<Rightarrow> nat \<Rightarrow> 'q list \<Rightarrow> 'a" where
  "wrest f i ws = sum_list (map f (take i ws)) + sum_list (map f (drop (Suc i) ws))"

fun unsent :: "Job list \<Rightarrow> mpc \<Rightarrow> Job list" where
  "unsent jobs (Spawning i) = jobs"
| "unsent jobs (Sending js) = js"
| "unsent jobs Waiting = []"
| "unsent jobs Joined = []"

definition tally :: "(wpc \<Rightarrow> 'a) \<Rightarrow> (Job \<Rightarrow> 'a) \<Rightarrow> Job list \<Rightarrow> Pool \<Rightarrow> 'a::comm_monoid_add" where
  "tally pot jpot jobs p =
     wsum pot (workers p) +
     (sum_list (map jpot (chan p)) + sum_list (map jpot (unsent jobs (mainpc p))))"

definition one :: "Job \<Rightarrow> int64" where
  "one j = 1"

definition single :: "Job \<Rightarrow> Job multiset" where
  "single j = {#j#}"

fun at_removing :: "wpc \<Rightarrow> nat" where
  "at_removing (Removing j) = 1"
| "at_removing _ = 0"

definition total_inv :: "Host \<Rightarrow> Config \<Rightarrow> Job list \<Rightarrow> Pool \<Rightarrow> bool" where
  "total_inv host cfg jobs p \<longleftrightarrow>
     Total (stats p) + tally (due (invocation_fails host cfg) None 1 one)
        (jdue (invocation_fails host cfg) None one) jobs p
     = sum_list (map (jdue (invocation_fails host cfg) None one) jobs)"

definition failed_inv :: "Host \<Rightarrow> Config \<Rightarrow> Job list \<Rightarrow> Pool \<Rightarrow> bool" where
  "failed_inv host cfg jobs p \<longleftrightarrow>
     Failed (stats p) + tally (due (invocation_fails host cfg) (Some True) 8 one)
        (jdue (invocation_fails host cfg) (Some True) one) jobs p
     = sum_list (map (jdue (invocation_fails host cfg) (Some True) one) jobs)"

definition converted_inv :: "Host \<Rightarrow> Config \<Rightarrow> Job list \<Rightarrow> Pool \<Rightarrow> bool" where
  "converted_inv host cfg jobs p \<longleftrightarrow>
     Converted (stats p) + tally (due (invocation_fails host cfg) (Some False) 11 one)
        (jdue (invocation_fails host cfg) (Some False) one) jobs p
     = sum_list (map (jdue (invocation_fails host cfg) (Some False) one) jobs)"



definition removing_inv :: "Config \<Rightarrow> Pool \<Rightarrow> bool" where
  "removing_inv cfg p \<longleftrightarrow> (\<not> Replace cfg \<longrightarrow> wsum at_removing (workers p) = 0)"


fun owes_before :: "(Job \<Rightarrow> int64 option) \<Rightarrow> wpc \<Rightarrow> int64" where
  "owes_before b (Claimed j) = size_of (b j)"
| "owes_before b (StatSrc j) = size_of (b j)"
| "owes_before b (AddBefore j sz) = sz"
| "owes_before b _ = 0"

fun owes_after :: "(Job \<Rightarrow> bool) \<Rightarrow> (Job \<Rightarrow> int64 option) \<Rightarrow> wpc \<Rightarrow> int64" where
  "owes_after fl a (Unlocking j err) = (if err = None then size_of (a j) else 0)"
| "owes_after fl a (StatDst j) = size_of (a j)"
| "owes_after fl a (AddAfter j sz) = sz"
| "owes_after fl a q =
     (case holds q of None \<Rightarrow> 0
      | Some j \<Rightarrow> if stage q \<le> 5 \<and> \<not> fl j then size_of (a j) else 0)"

definition before_inv ::
  "(Job \<Rightarrow> int64 option) \<Rightarrow> (Job \<Rightarrow> int64 option) \<Rightarrow> Job list \<Rightarrow> Pool \<Rightarrow> bool" where
  "before_inv b a jobs p \<longleftrightarrow>
     (fixed_sizes b a (trace (world p)) \<longrightarrow>
      SizeBefore (stats p) + tally (owes_before b) (\<lambda>j. size_of (b j)) jobs p
      = sum_list (map (\<lambda>j. size_of (b j)) jobs))"

definition after_inv ::
  "Host \<Rightarrow> Config \<Rightarrow> (Job \<Rightarrow> int64 option) \<Rightarrow> (Job \<Rightarrow> int64 option) \<Rightarrow> Job list \<Rightarrow> Pool \<Rightarrow> bool" where
  "after_inv host cfg b a jobs p \<longleftrightarrow>
     (fixed_sizes b a (trace (world p)) \<longrightarrow>
      SizeAfter (stats p) +
        tally (owes_after (invocation_fails host cfg) a)
          (\<lambda>j. if invocation_fails host cfg j then 0 else size_of (a j)) jobs p
      = sum_list (map (\<lambda>j. if invocation_fails host cfg j then 0 else size_of (a j)) jobs))"

fun is_done :: "wpc \<Rightarrow> nat" where
  "is_done Done = 1"
| "is_done _ = 0"

fun is_busy :: "wpc \<Rightarrow> nat" where
  "is_busy Done = 0"
| "is_busy _ = 1"

fun in_convert :: "wpc \<Rightarrow> nat" where
  "in_convert (Running j) = 1"
| "in_convert (Unlocking j err) = 1"
| "in_convert _ = 0"

definition shape_inv :: "Host \<Rightarrow> Pool \<Rightarrow> bool" where
  "shape_inv host p \<longleftrightarrow>
     (case mainpc p of
        Spawning i \<Rightarrow> length (workers p) = i \<and> i \<le> NumCPU host \<and> chan p = [] \<and> \<not> closed p
      | Sending js \<Rightarrow> length (workers p) = NumCPU host \<and> \<not> closed p
      | Waiting \<Rightarrow> length (workers p) = NumCPU host \<and> closed p
      | Joined \<Rightarrow> length (workers p) = NumCPU host \<and> closed p \<and> wsum is_busy (workers p) = 0) \<and>
     (0 < wsum is_done (workers p) \<longrightarrow> closed p \<and> chan p = [])"

definition mutex_inv :: "Pool \<Rightarrow> bool" where
  "mutex_inv p \<longleftrightarrow> wsum in_convert (workers p) = (if mutex p then 1 else 0)"

definition files_inv :: "World \<Rightarrow> Pool \<Rightarrow> bool" where
  "files_inv w p \<longleftrightarrow>
     trace (world p) = trace w @ events_since w p \<and>
     files (world p) = replay (events_since w p) (files w)"

fun phase_at :: "Config \<Rightarrow> wpc \<Rightarrow> phase" where
  "phase_at cfg (AddBefore j sz) = Measured j"
| "phase_at cfg (Locking j) = Measured j"
| "phase_at cfg (Running j) = Measured j"
| "phase_at cfg (Unlocking j err) = Encoded j (err = None)"
| "phase_at cfg (LogFail j) = Encoded j False"
| "phase_at cfg (StatDst j) = Encoded j True"
| "phase_at cfg (AddAfter j sz) = Sized j"
| "phase_at cfg (Removing j) = Sized j"
| "phase_at cfg (Printing j) = (if Replace cfg then Deleted j else Sized j)"
| "phase_at cfg _ = Fresh"

definition order_inv :: "Config \<Rightarrow> World \<Rightarrow> Pool \<Rightarrow> bool" where
  "order_inv cfg w p \<longleftrightarrow>
     (\<forall>i. follows cfg Fresh (own i (events_since w p)) =
          Some (if i < length (workers p) then phase_at cfg (workers p ! i) else Fresh))"

subsection \<open>Invariants of the pool of the first program\<close>

fun busy1 :: "wpc1 \<Rightarrow> nat" where
  "busy1 Idle1 = 0"
| "busy1 Done1 = 0"
| "busy1 _ = 1"

fun is_done1 :: "wpc1 \<Rightarrow> nat" where
  "is_done1 Done1 = 1"
| "is_done1 _ = 0"

fun not_done1 :: "wpc1 \<Rightarrow> nat" where
  "not_done1 Done1 = 0"
| "not_done1 _ = 1"

fun holds1 :: "wpc1 \<Rightarrow> nat" where
  "holds1 (Running1 job) = 1"
| "holds1 (Statting1 job) = 1"
| "holds1 (Unlocking1 job r) = 1"
| "holds1 _ = 0"

fun to_visit :: "string list \<Rightarrow> mpc1 \<Rightarrow> nat" where
  "to_visit images (Spawning1 i) = length images"
| "to_visit images (Dispatching rest) = length rest"
| "to_visit images (Offering job rest) = Suc (length rest)"
| "to_visit images _ = 0"

fun collecting :: "mpc1 \<Rightarrow> bool" where
  \<comment> \<open>\<open>stats\<close> has been declared\<close>
  "collecting Collecting = True"
| "collecting (Logging result) = True"
| "collecting Summarising = True"
| "collecting Returned = True"
| "collecting _ = False"

definition count_inv1 :: "string list \<Rightarrow> Pool1 \<Rightarrow> bool" where
  "count_inv1 images p \<longleftrightarrow>
     ProcessedFiles (stats1 p) + FailedFiles (stats1 p) +
       (int (length (results_ch p)) + int (wsum busy1 (workers1 p)) + int (length (jobs_ch p)))
       = int (length (sent p)) \<and>
     0 \<le> ProcessedFiles (stats1 p) \<and> 0 \<le> FailedFiles (stats1 p) \<and>
     length (sent p) + to_visit images (mainpc1 p) \<le> length images \<and>
     (if collecting (mainpc1 p) then TotalFiles (stats1 p) = int (length images)
      else ProcessedFiles (stats1 p) = 0 \<and> FailedFiles (stats1 p) = 0)"

fun started :: "cpc \<Rightarrow> bool" where
  "started Unstarted = False"
| "started _ = True"

fun waited :: "cpc \<Rightarrow> bool" where
  "waited ClosingResults = True"
| "waited Exited = True"
| "waited _ = False"

fun spawned :: "Host \<Rightarrow> Pool1 \<Rightarrow> mpc1 \<Rightarrow> bool" where
  "spawned host p (Spawning1 i) = (length (workers1 p) = i \<and> i \<le> NumCPU host)"
| "spawned host p _ = (length (workers1 p) = NumCPU host)"

fun dispatched :: "mpc1 \<Rightarrow> bool" where
  \<comment> \<open>\<open>close(jobs)\<close> has been executed\<close>
  "dispatched (Spawning1 i) = False"
| "dispatched (Dispatching rest) = False"
| "dispatched (Offering job rest) = False"
| "dispatched _ = True"

fun drained :: "mpc1 \<Rightarrow> bool" where
  \<comment> \<open>the loop over \<open>results\<close> has ended\<close>
  "drained Summarising = True"
| "drained Returned = True"
| "drained _ = False"

definition shape_inv1 :: "Host \<Rightarrow> Pool1 \<Rightarrow> bool" where
  "shape_inv1 host p \<longleftrightarrow>
     spawned host p (mainpc1 p) \<and>
     jobs_closed p = dispatched (mainpc1 p) \<and>
     started (closer p) = collecting (mainpc1 p) \<and>
     (drained (mainpc1 p) \<longrightarrow> results_closed p \<and> results_ch p = []) \<and>
     (0 < wsum is_done1 (workers1 p) \<longrightarrow> jobs_closed p \<and> jobs_ch p = []) \<and>
     (waited (closer p) \<longrightarrow> wsum not_done1 (workers1 p) = 0) \<and>
     results_closed p = (closer p = Exited)"

definition mutex_inv1 :: "Pool1 \<Rightarrow> bool" where
  "mutex_inv1 p \<longleftrightarrow> wsum holds1 (workers1 p) = (if mutex1 p then 1 else 0)"

definition events_since1 :: "World \<Rightarrow> Pool1 \<Rightarrow> event list" where
  "events_since1 w p = drop (length (trace w)) (trace (world1 p))"

definition trace_inv1 :: "World \<Rightarrow> Pool1 \<Rightarrow> bool" where
  "trace_inv1 w p \<longleftrightarrow> trace (world1 p) = trace w @ events_since1 w p"

fun advance1 :: "phase \<Rightarrow> Job \<Rightarrow> action \<Rightarrow> phase option" where
  "advance1 Fresh j (Encode err out) = Some (if err = None then Encoded j True else Fresh)"
| "advance1 (Encoded j' ok) j (StatDest r) = (if j = j' \<and> ok then Some Fresh else None)"
| "advance1 _ _ _ = None"

fun follows1 :: "phase \<Rightarrow> (Job \<times> action) list \<Rightarrow> phase option" where
  "follows1 ph [] = Some ph"
| "follows1 ph ((j, a) # xs) =
     (case advance1 ph j a of None \<Rightarrow> None | Some ph' \<Rightarrow> follows1 ph' xs)"

fun phase_at1 :: "wpc1 \<Rightarrow> phase" where
  "phase_at1 (Statting1 job) = Encoded (job_of job) True"
| "phase_at1 _ = Fresh"

definition order_inv1 :: "World \<Rightarrow> Pool1 \<Rightarrow> bool" where
  "order_inv1 w p \<longleftrightarrow>
     (\<forall>i. follows1 Fresh (own i (events_since1 w p)) =
          Some (if i < length (workers1 p) then phase_at1 (workers1 p ! i) else Fresh))"

definition webp_dest :: "ImageJob \<Rightarrow> bool" where
  "webp_dest job = (Ext (DestPath job) = ''.webp'')"

fun offered :: "mpc1 \<Rightarrow> ImageJob list" where
  "offered (Offering job rest) = [job]"
| "offered _ = []"

fun unvisited :: "string list \<Rightarrow> mpc1 \<Rightarrow> string list" where
  "unvisited images (Spawning1 i) = images"
| "unvisited images (Dispatching rest) = rest"
| "unvisited images (Offering job rest) = rest"
| "unvisited images _ = []"

fun to_encode :: "wpc1 \<Rightarrow> ImageJob list" where
  "to_encode (Locking1 job) = [job]"
| "to_encode (Running1 job) = [job]"
| "to_encode _ = []"

definition dest_inv1 :: "Pool1 \<Rightarrow> bool" where
  "dest_inv1 p \<longleftrightarrow>
     list_all webp_dest (offered (mainpc1 p)) \<and> list_all webp_dest (jobs_ch p) \<and>
     list_all (\<lambda>q. list_all webp_dest (to_encode q)) (workers1 p)"

definition files_inv1 :: "World \<Rightarrow> Pool1 \<Rightarrow> bool" where
  "files_inv1 w p \<longleftrightarrow> (\<forall>path. Ext path \<noteq> ''.webp'' \<longrightarrow> files (world1 p) path = files w path)"

definition job1 :: "string \<Rightarrow> World \<Rightarrow> string \<Rightarrow> ImageJob" where
  \<comment> \<open>the job \<open>main\<close> makes of an image, when the file is as it is in \<open>w\<close>\<close>
  "job1 outputPath w imgPath =
     \<lparr>SourcePath = imgPath, DestPath = Join outputPath (destFilename imgPath),
      OrigSize = size_of (files w imgPath)\<rparr>"

definition statable :: "World \<Rightarrow> string \<Rightarrow> bool" where
  "statable w path = (files w path \<noteq> None)"

definition sent_inv1 :: "string list \<Rightarrow> string \<Rightarrow> World \<Rightarrow> Pool1 \<Rightarrow> bool" where
  "sent_inv1 images outputPath w p \<longleftrightarrow>
     sent p @ offered (mainpc1 p) @
       map (job1 outputPath w) (filter (statable w) (unvisited images (mainpc1 p))) =
     map (job1 outputPath w) (filter (statable w) images) \<and>
     list_all (\<lambda>i. Ext i \<noteq> ''.webp'') (unvisited images (mainpc1 p))"

definition demo_entries :: "DirEntry list" where
  "demo_entries = [\<lparr>Name = ''a.png'', IsDir = False\<rparr>, \<lparr>Name = ''b.jpg'', IsDir = False\<rparr>]"

definition demo_world :: "string \<Rightarrow> World" where
  "demo_world inp =
     \<lparr>hasFFmpeg = True,
      listing = (\<lambda>d. if d = ''/pics'' then Some demo_entries else None),
      cwd = Some ''/pics'',
      stdin = inp,
      files = [''/pics/a.png'' \<mapsto> 2000000, ''/pics/b.jpg'' \<mapsto> 1000000],
      dirs = {''/pics''},
      trace = []\<rparr>"

definition demo_ffmpeg :: "string \<Rightarrow> int \<Rightarrow> string \<Rightarrow> RunResult" where
  "demo_ffmpeg src q dst =
     (if src = ''/pics/b.jpg''
      then \<lparr>exitError = Some ''exit status 1'', stderrText = ''bad input '', written = None\<rparr>
      else \<lparr>exitError = None, stderrText = [], written = Some 500000\<rparr>)"

definition demo_host :: "nat \<Rightarrow> Host" where
  "demo_host n = \<lparr>NumCPU = n, ffmpeg = demo_ffmpeg, ffmpeg_libwebp = demo_ffmpeg\<rparr>"

definition demo_cfg :: "bool \<Rightarrow> bool \<Rightarrow> Config" where
  "demo_cfg sk rp = \<lparr>WorkDir = ''/pics'', Quality = 80, Skip = sk, Replace = rp\<rparr>"

definition demo_jobs :: "Job list" where
  "demo_jobs =
     [\<lparr>Source = ''/pics/a.png'', Dest = ''/pics/compressed/a.webp''\<rparr>,
      \<lparr>Source = ''/pics/b.jpg'', Dest = ''/pics/compressed/b.webp''\<rparr>]"

definition demo_sched2 :: "nat list" where
  "demo_sched2 = replicate 6 0 @ concat (replicate 16 [1, 2]) @ [0]"

definition demo_sched1 :: "nat list" where
  "demo_sched1 = replicate 5 0 @ replicate 23 1 @ [0]"

definition good_ffmpeg :: "string \<Rightarrow> int \<Rightarrow> string \<Rightarrow> RunResult" where
  "good_ffmpeg src q dst =
     \<lparr>exitError = None, stderrText = [],
      written = Some (if src = ''/pics/a.png'' then 500000 else 250000)\<rparr>"

definition good_host :: "nat \<Rightarrow> Host" where
  "good_host n = \<lparr>NumCPU = n, ffmpeg = good_ffmpeg, ffmpeg_libwebp = good_ffmpeg\<rparr>"

definition demo_before :: "Job \<Rightarrow> int64 option" where
  "demo_before j = (if Source j = ''/pics/a.png'' then Some 2000000 else Some 1000000)"

definition demo_after :: "Job \<Rightarrow> int64 option" where
  "demo_after j = (if Source j = ''/pics/a.png'' then Some 500000 else Some 250000)"









section \<open>Properties of discovery\<close>

lemma ext_scan_no_sep:
  "CHR ''.'' \<notin> set cs \<Longrightarrow> ext_scan cs acc = []"
  by (induction cs arbitrary: acc) auto

lemma ext_scan_found:
  "CHR ''.'' \<notin> set x \<Longrightarrow> CHR ''/'' \<notin> set x \<Longrightarrow>
   ext_scan (x @ CHR ''.'' # r) acc = CHR ''.'' # rev x @ acc"
  by (induction x arbitrary: acc) auto

lemma ext_scan_shape:
  "ext_scan cs acc = [] \<or>
   (\<exists>x r. cs = x @ CHR ''.'' # r \<and> CHR ''.'' \<notin> set x \<and> CHR ''/'' \<notin> set x \<and>
          ext_scan cs acc = CHR ''.'' # rev x @ acc)"
proof (induction cs arbitrary: acc)
  case Nil
  show ?case by simp
next
  case (Cons c cs)
  show ?case
  proof (cases "c = CHR ''/''")
    case True
    then show ?thesis by simp
  next
    case sep: False
    show ?thesis
    proof (cases "c = CHR ''.''")
      case True
      then have "c # cs = [] @ CHR ''.'' # cs" by simp
      with True sep show ?thesis by fastforce
    next
      case False
      from Cons.IH [of "c # acc"] show ?thesis
      proof
        assume "ext_scan cs (c # acc) = []"
        with sep False show ?thesis by simp
      next
        assume "\<exists>x r. cs = x @ CHR ''.'' # r \<and> CHR ''.'' \<notin> set x \<and> CHR ''/'' \<notin> set x \<and>
                  ext_scan cs (c # acc) = CHR ''.'' # rev x @ c # acc"
        then obtain x r where h: "cs = x @ CHR ''.'' # r" "CHR ''.'' \<notin> set x"
          "CHR ''/'' \<notin> set x" "ext_scan cs (c # acc) = CHR ''.'' # rev x @ c # acc"
          by blast
        have "c # cs = (c # x) @ CHR ''.'' # r" using h(1) by simp
        moreover have "CHR ''.'' \<notin> set (c # x)" "CHR ''/'' \<notin> set (c # x)"
          using h(2,3) sep False by auto
        moreover have "ext_scan (c # cs) acc = CHR ''.'' # rev (c # x) @ acc"
          using h(4) sep False by simp
        ultimately show ?thesis by blast
      qed
    qed
  qed
qed

lemma Ext_of_extension:
  assumes "extension_is name x"
  shows "Ext name = ''.'' @ x"
proof -
  from assms obtain b where b: "name = b @ ''.'' @ x" "CHR ''.'' \<notin> set x" "CHR ''/'' \<notin> set x"
    by (auto simp: extension_is_def)
  have "rev name = rev x @ CHR ''.'' # rev b" using b(1) by simp
  moreover have "ext_scan (rev x @ CHR ''.'' # rev b) [] = CHR ''.'' # rev (rev x) @ []"
    by (rule ext_scan_found) (use b in auto)
  ultimately show ?thesis by (simp add: Ext_def)
qed

lemma Ext_shape:
  "Ext name = [] \<or> (\<exists>x. extension_is name x \<and> Ext name = ''.'' @ x)"
proof -
  from ext_scan_shape [of "rev name" "[]"] show ?thesis
  proof
    assume "ext_scan (rev name) [] = []"
    then show ?thesis by (simp add: Ext_def)
  next
    assume "\<exists>x r. rev name = x @ CHR ''.'' # r \<and> CHR ''.'' \<notin> set x \<and> CHR ''/'' \<notin> set x \<and>
              ext_scan (rev name) [] = CHR ''.'' # rev x @ []"
    then obtain x r where h: "rev name = x @ CHR ''.'' # r" "CHR ''.'' \<notin> set x"
      "CHR ''/'' \<notin> set x" "ext_scan (rev name) [] = CHR ''.'' # rev x @ []"
      by blast
    have "name = rev r @ ''.'' @ rev x"
      using arg_cong [OF h(1), of rev] by simp
    then have "extension_is name (rev x)"
      using h(2,3) by (auto simp: extension_is_def)
    moreover have "Ext name = ''.'' @ rev x" using h(4) by (simp add: Ext_def)
    ultimately show ?thesis by blast
  qed
qed

lemma lower_dot: "lower_byte c = CHR ''.'' \<longleftrightarrow> c = CHR ''.''"
proof
  assume h: "lower_byte c = CHR ''.''"
  show "c = CHR ''.''"
  proof (cases "65 \<le> (of_char c :: nat) \<and> (of_char c :: nat) \<le> 90")
    case True
    then have "lower_byte c = char_of ((of_char c :: nat) + 32)"
      by (simp add: lower_byte_def)
    with h have "(of_char (char_of ((of_char c :: nat) + 32) :: char) :: nat) = 46" by simp
    moreover have "(of_char c :: nat) + 32 < 256" using True by simp
    ultimately have "(of_char c :: nat) + 32 = 46" by (simp add: of_char_of)
    with True show ?thesis by simp
  next
    case False
    with h show ?thesis by (simp add: lower_byte_def)
  qed
next
  assume "c = CHR ''.''"
  then show "lower_byte c = CHR ''.''" by (simp add: lower_byte_def)
qed







lemma Ext_webp: "Ext (y @ ''.webp'') = ''.webp''"
proof -
  have "ext_scan (''pbew'' @ CHR ''.'' # rev y) [] = CHR ''.'' # rev ''pbew'' @ []"
    by (rule ext_scan_found) simp_all
  then show ?thesis by (simp add: Ext_def)
qed










lemma wsum_split: "i < length ws \<Longrightarrow> wsum f ws = f (ws ! i) + wrest f i ws"
proof -
  assume "i < length ws"
  then have "ws = take i ws @ ws ! i # drop (Suc i) ws"
    by (simp add: id_take_nth_drop)
  then have "wsum f ws = wsum f (take i ws @ ws ! i # drop (Suc i) ws)" by simp
  then show ?thesis by (simp add: wsum_def wrest_def ac_simps)
qed

lemma wsum_update: "i < length ws \<Longrightarrow> wsum f (ws[i := q]) = f q + wrest f i ws"
  by (simp add: wsum_def wrest_def upd_conv_take_nth_drop ac_simps)

lemma wsum_snoc: "wsum f (ws @ [q]) = wsum f ws + f q"
  by (simp add: wsum_def)

lemma own_append: "own i (xs @ ys) = own i xs @ own i ys"
  by (induction i xs rule: own.induct) simp_all

lemma exec_induct:
  assumes "I p" and "\<And>t p. I p \<Longrightarrow> I (step host cfg jobs t p)"
  shows "I (exec host cfg jobs sched p)"
  using assms(1) unfolding exec_def
  by (induction sched arbitrary: p) (simp_all add: assms(2))

lemmas pool_simps = set_pc_def record_event_def write_file_def remove_file_def after_sizes_def

lemmas due_simps = due_def jdue_def on_path_def one_def single_def tell_def invocation_fails_def

lemma total_inv_step:
  assumes "total_inv host cfg jobs p"
  shows "total_inv host cfg jobs (step host cfg jobs t p)"
proof (cases t)
  case 0
  show ?thesis
  proof (cases "mainpc p")
    case (Sending js)
    with 0 assms show ?thesis
      by (cases js) (simp_all add: total_inv_def tally_def add.assoc)
  qed (use 0 assms in \<open>simp_all add: total_inv_def tally_def wsum_snoc due_simps\<close>)
next
  case (Suc i)
  show ?thesis
  proof (cases "i < length (workers p)")
    case False
    with Suc assms show ?thesis by simp
  next
    case True
    note sp = wsum_split [OF True, of "due (invocation_fails host cfg) None 1 one"]
    show ?thesis
      using assms sp True unfolding Suc
      by (cases "workers p ! i")
        (auto simp add: total_inv_def tally_def pool_simps wsum_update Let_def ac_simps due_simps
          split: list.split option.split)
  qed
qed

lemma failed_inv_step:
  assumes "failed_inv host cfg jobs p"
  shows "failed_inv host cfg jobs (step host cfg jobs t p)"
proof (cases t)
  case 0
  show ?thesis
  proof (cases "mainpc p")
    case (Sending js)
    with 0 assms show ?thesis
      by (cases js) (simp_all add: failed_inv_def tally_def add.assoc)
  qed (use 0 assms in \<open>simp_all add: failed_inv_def tally_def wsum_snoc due_simps\<close>)
next
  case (Suc i)
  show ?thesis
  proof (cases "i < length (workers p)")
    case False
    with Suc assms show ?thesis by simp
  next
    case True
    note sp = wsum_split [OF True, of "due (invocation_fails host cfg) (Some True) 8 one"]
    show ?thesis
      using assms sp True unfolding Suc
      by (cases "workers p ! i")
        (auto simp add: failed_inv_def tally_def pool_simps wsum_update Let_def ac_simps due_simps
          split: list.split option.split)
  qed
qed


lemma converted_inv_step:
  assumes "converted_inv host cfg jobs p"
  shows "converted_inv host cfg jobs (step host cfg jobs t p)"
proof (cases t)
  case 0
  show ?thesis
  proof (cases "mainpc p")
    case (Sending js)
    with 0 assms show ?thesis
      by (cases js) (simp_all add: converted_inv_def tally_def add.assoc)
  qed (use 0 assms in \<open>simp_all add: converted_inv_def tally_def wsum_snoc due_simps\<close>)
next
  case (Suc i)
  show ?thesis
  proof (cases "i < length (workers p)")
    case False
    with Suc assms show ?thesis by simp
  next
    case True
    note sp = wsum_split [OF True, of "due (invocation_fails host cfg) (Some False) 11 one"]
    show ?thesis
      using assms sp True unfolding Suc
      by (cases "workers p ! i")
        (auto simp add: converted_inv_def tally_def pool_simps wsum_update Let_def ac_simps due_simps
          split: list.split option.split)
  qed
qed

lemma removing_inv_step:
  assumes "removing_inv cfg p"
  shows "removing_inv cfg (step host cfg jobs t p)"
proof (cases t)
  case 0
  show ?thesis
  proof (cases "mainpc p")
    case (Sending js)
    with 0 assms show ?thesis
      by (cases js) (auto simp add: removing_inv_def)
  qed (use 0 assms in \<open>auto simp add: removing_inv_def wsum_snoc\<close>)
next
  case (Suc i)
  show ?thesis
  proof (cases "i < length (workers p)")
    case False
    with Suc assms show ?thesis by simp
  next
    case True
    note sp = wsum_split [OF True, of at_removing]
    show ?thesis
      using assms sp True unfolding Suc
      by (cases "workers p ! i")
        (auto simp add: removing_inv_def pool_simps wsum_update Let_def
          split: list.split option.split)
  qed
qed



lemma before_inv_step:
  assumes "before_inv b a jobs p"
  shows "before_inv b a jobs (step host cfg jobs t p)"
proof (cases t)
  case 0
  show ?thesis
  proof (cases "mainpc p")
    case (Sending js)
    with 0 assms show ?thesis
      by (cases js) (simp_all add: before_inv_def tally_def add.assoc)
  qed (use 0 assms in \<open>simp_all add: before_inv_def tally_def wsum_snoc\<close>)
next
  case (Suc i)
  show ?thesis
  proof (cases "i < length (workers p)")
    case False
    with Suc assms show ?thesis by simp
  next
    case True
    note sp = wsum_split [OF True, of "owes_before b"]
    show ?thesis
      using assms sp True unfolding Suc
      by (cases "workers p ! i")
        (auto simp add: before_inv_def tally_def pool_simps wsum_update Let_def ac_simps
          fixed_sizes_def size_of_def
          split: list.split option.split)
  qed
qed

lemma after_inv_step:
  assumes "after_inv host cfg b a jobs p"
  shows "after_inv host cfg b a jobs (step host cfg jobs t p)"
proof (cases t)
  case 0
  show ?thesis
  proof (cases "mainpc p")
    case (Sending js)
    with 0 assms show ?thesis
      by (cases js) (simp_all add: after_inv_def tally_def add.assoc)
  qed (use 0 assms in \<open>simp_all add: after_inv_def tally_def wsum_snoc\<close>)
next
  case (Suc i)
  show ?thesis
  proof (cases "i < length (workers p)")
    case False
    with Suc assms show ?thesis by simp
  next
    case True
    note sp = wsum_split [OF True, of "owes_after (invocation_fails host cfg) a"]
    show ?thesis
      using assms sp True unfolding Suc
      by (cases "workers p ! i")
        (auto simp add: after_inv_def tally_def pool_simps wsum_update Let_def ac_simps
          fixed_sizes_def size_of_def invocation_fails_def
          split: list.split option.split)
  qed
qed

lemma all_done_busy: "list_all (\<lambda>q. q = Done) ws \<longleftrightarrow> wsum is_busy ws = 0"
proof (induction ws)
  case Nil
  show ?case by (simp add: wsum_def)
next
  case (Cons q ws)
  then show ?case by (cases q) (simp_all add: wsum_def)
qed

lemma shape_inv_step:
  assumes "shape_inv host p"
  shows "shape_inv host (step host cfg jobs t p)"
proof (cases t)
  case 0
  show ?thesis
  proof (cases "mainpc p")
    case (Sending js)
    with 0 assms show ?thesis
      by (cases js) (auto simp add: shape_inv_def)
  qed (use 0 assms in \<open>auto simp add: shape_inv_def wsum_snoc all_done_busy\<close>)
next
  case (Suc i)
  show ?thesis
  proof (cases "i < length (workers p)")
    case False
    with Suc assms show ?thesis by simp
  next
    case True
    note sp = wsum_split [OF True, of is_done] wsum_split [OF True, of is_busy]
    show ?thesis
      using assms sp True unfolding Suc
      by (cases "workers p ! i"; cases "mainpc p")
        (auto simp add: shape_inv_def pool_simps wsum_update Let_def
          split: list.split option.split)
  qed
qed

lemma mutex_inv_step:
  assumes "mutex_inv p"
  shows "mutex_inv (step host cfg jobs t p)"
proof (cases t)
  case 0
  show ?thesis
  proof (cases "mainpc p")
    case (Sending js)
    with 0 assms show ?thesis
      by (cases js) (auto simp add: mutex_inv_def)
  qed (use 0 assms in \<open>auto simp add: mutex_inv_def wsum_snoc\<close>)
next
  case (Suc i)
  show ?thesis
  proof (cases "i < length (workers p)")
    case False
    with Suc assms show ?thesis by simp
  next
    case True
    note sp = wsum_split [OF True, of in_convert]
    show ?thesis
      using assms sp True unfolding Suc
      by (cases "workers p ! i")
        (auto simp add: mutex_inv_def pool_simps wsum_update Let_def
          split: list.split option.split if_split_asm)
  qed
qed

lemma files_inv_step:
  assumes "files_inv w p"
  shows "files_inv w (step host cfg jobs t p)"
proof (cases t)
  case 0
  show ?thesis
  proof (cases "mainpc p")
    case (Sending js)
    with 0 assms show ?thesis
      by (cases js) (auto simp add: files_inv_def events_since_def)
  qed (use 0 assms in \<open>auto simp add: files_inv_def events_since_def\<close>)
next
  case (Suc i)
  show ?thesis
  proof (cases "i < length (workers p)")
    case False
    with Suc assms show ?thesis by simp
  next
    case True
    from assms have len: "length (trace w) \<le> length (trace (world p))"
      by (metis files_inv_def length_append le_add1)
    show ?thesis
      using assms len True unfolding Suc
      by (cases "workers p ! i")
        (auto simp add: files_inv_def events_since_def replay_def pool_simps Let_def
          split: list.split option.split)
  qed
qed

lemma follows_append:
  "follows cfg ph (xs @ ys) =
   (case follows cfg ph xs of None \<Rightarrow> None | Some ph' \<Rightarrow> follows cfg ph' ys)"
  by (induction cfg ph xs rule: follows.induct) (simp_all split: option.split)

lemma order_inv_step:
  assumes "order_inv cfg w p" and "files_inv w p" and "removing_inv cfg p"
  shows "order_inv cfg w (step host cfg jobs t p)"
proof (cases t)
  case 0
  show ?thesis
  proof (cases "mainpc p")
    case (Sending js)
    with 0 assms show ?thesis
      by (cases js) (auto simp add: order_inv_def events_since_def)
  qed (use 0 assms in \<open>auto simp add: order_inv_def events_since_def nth_append\<close>)
next
  case (Suc i)
  show ?thesis
  proof (cases "i < length (workers p)")
    case False
    with Suc assms show ?thesis by simp
  next
    case True
    from assms(2) have len: "length (trace w) \<le> length (trace (world p))"
      by (metis files_inv_def length_append le_add1)
    have here: "follows cfg Fresh (own i (events_since w p)) = Some (phase_at cfg (workers p ! i))"
      using assms(1) True by (simp add: order_inv_def)
    show ?thesis
      unfolding order_inv_def
    proof
      fix k
      show "follows cfg Fresh (own k (events_since w (step host cfg jobs t p))) =
            Some (if k < length (workers (step host cfg jobs t p))
                  then phase_at cfg (workers (step host cfg jobs t p) ! k) else Fresh)"
      proof (cases "k = i")
        case True
        note sp = wsum_split [OF \<open>i < length (workers p)\<close>, of at_removing]
        from True here len \<open>i < length (workers p)\<close> assms(3) sp show ?thesis
          unfolding Suc
          by (cases "workers p ! i")
            (auto simp add: events_since_def pool_simps Let_def own_append follows_append
              removing_inv_def
              split: list.split option.split)
      next
        case False
        have "follows cfg Fresh (own k (events_since w p)) =
              Some (if k < length (workers p) then phase_at cfg (workers p ! k) else Fresh)"
          using assms(1) by (simp add: order_inv_def)
        with False len \<open>i < length (workers p)\<close> show ?thesis
          unfolding Suc
          by (cases "workers p ! i")
            (auto simp add: events_since_def pool_simps Let_def own_append
              split: list.split option.split)
      qed
    qed
  qed
qed

lemmas pool1_simps = set_pc1_def on_world1_def happens_def leaves_def say_def

lemma exec1_induct:
  assumes "I p" and "\<And>t p. I p \<Longrightarrow> I (step1 host quality images outputPath t p)"
  shows "I (exec1 host quality images outputPath sched p)"
  using assms(1) unfolding exec1_def
  by (induction sched arbitrary: p) (simp_all add: assms(2))

lemma all_done1: "list_all (\<lambda>q. q = Done1) ws \<longleftrightarrow> wsum not_done1 ws = 0"
proof (induction ws)
  case Nil
  show ?case by (simp add: wsum_def)
next
  case (Cons q ws)
  then show ?case by (cases q) (simp_all add: wsum_def)
qed

lemma step1_cases [case_names main closer idle worker]:
  assumes "t = 0 \<Longrightarrow> P" and "t = Suc 0 \<Longrightarrow> P"
    and "\<And>i. t = Suc (Suc i) \<Longrightarrow> \<not> i < length (workers1 p) \<Longrightarrow> P"
    and "\<And>i. t = Suc (Suc i) \<Longrightarrow> i < length (workers1 p) \<Longrightarrow> P"
  shows P
proof (cases t)
  case 0
  then show ?thesis by (rule assms(1))
next
  case (Suc k)
  show ?thesis
  proof (cases k)
    case 0
    with Suc show ?thesis by (simp add: assms(2))
  next
    case (Suc i)
    with \<open>t = Suc k\<close> assms(3,4) [of i] show ?thesis by blast
  qed
qed

lemma mutex_inv1_step:
  assumes "mutex_inv1 p"
  shows "mutex_inv1 (step1 host quality images outputPath t p)"
proof (cases rule: step1_cases [of t _ p])
  case main
  show ?thesis
  proof (cases "mainpc1 p")
    case (Dispatching rest)
    with main assms show ?thesis
      by (cases rest) (auto simp add: mutex_inv1_def pool1_simps split: option.split)
  qed (use main assms in \<open>auto simp add: mutex_inv1_def wsum_snoc pool1_simps split: list.split\<close>)
next
  case closer
  with assms show ?thesis by (cases "closer p") (auto simp add: mutex_inv1_def)
next
  case (idle i)
  with assms show ?thesis by simp
next
  case (worker i)
  note sp = wsum_split [OF worker(2), of holds1]
  show ?thesis
    using assms sp worker(2) unfolding worker(1)
    by (cases "workers1 p ! i")
      (auto simp add: mutex_inv1_def pool1_simps wsum_update Let_def
        split: list.split option.split if_split_asm)
qed

lemma waited_started: "waited c \<Longrightarrow> started c"
  by (cases c) simp_all

lemma shape_inv1_step:
  assumes "shape_inv1 host p"
  shows "shape_inv1 host (step1 host quality images outputPath t p)"
proof (cases rule: step1_cases [of t _ p])
  case main
  show ?thesis
  proof (cases "mainpc1 p")
    case (Dispatching rest)
    with main assms show ?thesis
      by (cases rest) (auto simp add: shape_inv1_def pool1_simps split: option.split)
  qed (use main assms in \<open>auto simp add: shape_inv1_def wsum_snoc pool1_simps
         dest: waited_started split: list.split\<close>)
next
  case closer
  with assms show ?thesis
    by (cases "closer p"; cases "mainpc1 p") (auto simp add: shape_inv1_def all_done1)
next
  case (idle i)
  with assms show ?thesis by simp
next
  case (worker i)
  note sp = wsum_split [OF worker(2), of is_done1] wsum_split [OF worker(2), of not_done1]
  show ?thesis
    using assms sp worker(2) unfolding worker(1)
    by (cases "workers1 p ! i"; cases "mainpc1 p")
      (auto simp add: shape_inv1_def pool1_simps wsum_update Let_def
        split: list.split option.split)
qed

lemma count_inv1_step:
  assumes "count_inv1 images p"
  shows "count_inv1 images (step1 host quality images outputPath t p)"
proof (cases rule: step1_cases [of t _ p])
  case main
  show ?thesis
  proof (cases "mainpc1 p")
    case (Dispatching rest)
    with main assms show ?thesis
      by (cases rest) (auto simp add: count_inv1_def pool1_simps split: option.split)
  qed (use main assms in \<open>auto simp add: count_inv1_def wsum_snoc pool1_simps count_result_def
         split: list.split\<close>)
next
  case closer
  with assms show ?thesis by (cases "closer p") (auto simp add: count_inv1_def)
next
  case (idle i)
  with assms show ?thesis by simp
next
  case (worker i)
  note sp = wsum_split [OF worker(2), of busy1]
  show ?thesis
    using assms sp worker(2) unfolding worker(1)
    by (cases "workers1 p ! i")
      (auto simp add: count_inv1_def pool1_simps wsum_update Let_def
        split: list.split option.split)
qed

lemma follows1_append:
  "follows1 ph (xs @ ys) =
   (case follows1 ph xs of None \<Rightarrow> None | Some ph' \<Rightarrow> follows1 ph' ys)"
  by (induction ph xs rule: follows1.induct) (simp_all split: option.split)

lemma trace_inv1_step:
  assumes "trace_inv1 w p"
  shows "trace_inv1 w (step1 host quality images outputPath t p)"
proof (cases rule: step1_cases [of t _ p])
  case main
  from assms have len: "length (trace w) \<le> length (trace (world1 p))"
    by (metis trace_inv1_def length_append le_add1)
  show ?thesis
  proof (cases "mainpc1 p")
    case (Dispatching rest)
    with main assms show ?thesis
      by (cases rest) (auto simp add: trace_inv1_def events_since1_def split: option.split)
  qed (use main assms len in \<open>auto simp add: trace_inv1_def events_since1_def pool1_simps
         split: list.split\<close>)
next
  case closer
  with assms show ?thesis
    by (cases "closer p") (auto simp add: trace_inv1_def events_since1_def)
next
  case (idle i)
  with assms show ?thesis by simp
next
  case (worker i)
  from assms have len: "length (trace w) \<le> length (trace (world1 p))"
    by (metis trace_inv1_def length_append le_add1)
  show ?thesis
    using assms len worker(2) unfolding worker(1)
    by (cases "workers1 p ! i")
      (auto simp add: trace_inv1_def events_since1_def pool1_simps Let_def
        split: list.split option.split)
qed

lemma order_inv1_step:
  assumes "order_inv1 w p" and "trace_inv1 w p"
  shows "order_inv1 w (step1 host quality images outputPath t p)"
proof (cases rule: step1_cases [of t _ p])
  case main
  from assms(2) have len: "length (trace w) \<le> length (trace (world1 p))"
    by (metis trace_inv1_def length_append le_add1)
  show ?thesis
  proof (cases "mainpc1 p")
    case (Dispatching rest)
    with main assms show ?thesis
      by (cases rest) (auto simp add: order_inv1_def events_since1_def split: option.split)
  qed (use main assms len in \<open>auto simp add: order_inv1_def events_since1_def pool1_simps
         nth_append own_append split: list.split\<close>)
next
  case closer
  with assms show ?thesis
    by (cases "closer p") (auto simp add: order_inv1_def events_since1_def)
next
  case (idle i)
  with assms show ?thesis by simp
next
  case (worker i)
  from assms(2) have len: "length (trace w) \<le> length (trace (world1 p))"
    by (metis trace_inv1_def length_append le_add1)
  have here: "follows1 Fresh (own i (events_since1 w p)) = Some (phase_at1 (workers1 p ! i))"
    using assms(1) worker(2) by (simp add: order_inv1_def)
  show ?thesis
    unfolding order_inv1_def
  proof
    fix k
    show "follows1 Fresh (own k (events_since1 w (step1 host quality images outputPath t p))) =
          Some (if k < length (workers1 (step1 host quality images outputPath t p))
                then phase_at1 (workers1 (step1 host quality images outputPath t p) ! k)
                else Fresh)"
    proof (cases "k = i")
      case True
      with here len worker(2) show ?thesis
        unfolding worker(1)
        by (cases "workers1 p ! i")
          (auto simp add: events_since1_def pool1_simps Let_def own_append follows1_append
            split: list.split option.split)
    next
      case False
      have "follows1 Fresh (own k (events_since1 w p)) =
            Some (if k < length (workers1 p) then phase_at1 (workers1 p ! k) else Fresh)"
        using assms(1) by (simp add: order_inv1_def)
      with False len worker(2) show ?thesis
        unfolding worker(1)
        by (cases "workers1 p ! i")
          (auto simp add: events_since1_def pool1_simps Let_def own_append
            split: list.split option.split)
    qed
  qed
qed

lemma reach_shape1:
  "shape_inv1 host (exec1 host quality images outputPath sched (init_pool1 w))"
proof (rule exec1_induct)
  show "shape_inv1 host (init_pool1 w)" by (simp add: shape_inv1_def init_pool1_def wsum_def)
qed (rule shape_inv1_step)

lemma reach_mutex1: "mutex_inv1 (exec1 host quality images outputPath sched (init_pool1 w))"
proof (rule exec1_induct)
  show "mutex_inv1 (init_pool1 w)" by (simp add: mutex_inv1_def init_pool1_def wsum_def)
qed (rule mutex_inv1_step)

lemma reach_count1:
  "count_inv1 images (exec1 host quality images outputPath sched (init_pool1 w))"
proof (rule exec1_induct)
  show "count_inv1 images (init_pool1 w)" by (simp add: count_inv1_def init_pool1_def wsum_def)
qed (rule count_inv1_step)

lemma reach_trace1: "trace_inv1 w (exec1 host quality images outputPath sched (init_pool1 w))"
proof (rule exec1_induct)
  show "trace_inv1 w (init_pool1 w)"
    by (simp add: trace_inv1_def events_since1_def init_pool1_def)
qed (rule trace_inv1_step)

lemma reach_order1: "order_inv1 w (exec1 host quality images outputPath sched (init_pool1 w))"
proof -
  have "order_inv1 w (exec1 host quality images outputPath sched (init_pool1 w)) \<and>
        trace_inv1 w (exec1 host quality images outputPath sched (init_pool1 w))"
  proof (rule exec1_induct)
    show "order_inv1 w (init_pool1 w) \<and> trace_inv1 w (init_pool1 w)"
      by (simp add: order_inv1_def trace_inv1_def events_since1_def init_pool1_def)
  next
    fix t p
    assume "order_inv1 w p \<and> trace_inv1 w p"
    then show "order_inv1 w (step1 host quality images outputPath t p) \<and>
        trace_inv1 w (step1 host quality images outputPath t p)"
      by (simp add: order_inv1_step trace_inv1_step)
  qed
  then show ?thesis ..
qed

lemma wsum_busy_done1: "wsum not_done1 ws = 0 \<Longrightarrow> wsum busy1 ws = 0"
proof (induction ws)
  case Nil
  show ?case by (simp add: wsum_def)
next
  case (Cons q ws)
  then show ?case by (cases q) (simp_all add: wsum_def)
qed

lemma wsum_some_done1: "wsum not_done1 ws = 0 \<Longrightarrow> ws \<noteq> [] \<Longrightarrow> 0 < wsum is_done1 ws"
proof (cases ws)
  case Nil
  then show "ws \<noteq> [] \<Longrightarrow> ?thesis" by simp
next
  case (Cons q qs)
  assume "wsum not_done1 ws = 0"
  with Cons show ?thesis by (cases q) (simp_all add: wsum_def)
qed

lemma final_counts1:
  assumes "0 < NumCPU host"
    and "mainpc1 (exec1 host quality images outputPath sched (init_pool1 w)) = Returned"
  shows "ProcessedFiles (stats1 (exec1 host quality images outputPath sched (init_pool1 w))) +
         FailedFiles (stats1 (exec1 host quality images outputPath sched (init_pool1 w))) =
           int (length (sent (exec1 host quality images outputPath sched (init_pool1 w))))"
    and "TotalFiles (stats1 (exec1 host quality images outputPath sched (init_pool1 w))) =
           int (length images)"
    and "length (sent (exec1 host quality images outputPath sched (init_pool1 w))) \<le>
           length images"
proof -
  let ?p = "exec1 host quality images outputPath sched (init_pool1 w)"
  have sh: "shape_inv1 host ?p" by (rule reach_shape1)
  have ct: "count_inv1 images ?p" by (rule reach_count1)
  from sh assms have len: "length (workers1 ?p) = NumCPU host"
    and cl: "results_closed ?p" and em: "results_ch ?p = []"
    by (simp_all add: shape_inv1_def)
  from sh cl have "waited (closer ?p)" by (simp add: shape_inv1_def)
  with sh have nd: "wsum not_done1 (workers1 ?p) = 0" by (simp add: shape_inv1_def)
  from len assms(1) have "workers1 ?p \<noteq> []" by auto
  with nd have "0 < wsum is_done1 (workers1 ?p)" by (rule wsum_some_done1)
  with sh have je: "jobs_ch ?p = []" by (simp add: shape_inv1_def)
  from nd have b: "wsum busy1 (workers1 ?p) = 0" by (rule wsum_busy_done1)
  from ct em je b
  show "ProcessedFiles (stats1 ?p) + FailedFiles (stats1 ?p) = int (length (sent ?p))"
    by (simp add: count_inv1_def)
  from ct assms(2) show "TotalFiles (stats1 ?p) = int (length images)"
    by (simp add: count_inv1_def)
  from ct show "length (sent ?p) \<le> length images" by (simp add: count_inv1_def)
qed

lemma Ext_Join_webp: "Ext (Join d (y @ ''.webp'')) = ''.webp''"
proof -
  have "\<exists>z. Join d (y @ ''.webp'') = z @ ''.webp''"
    by (simp add: Join_def)
  then show ?thesis by (auto simp add: Ext_webp)
qed

lemma list_all_update: "list_all P ws \<Longrightarrow> P q \<Longrightarrow> list_all P (ws[i := q])"
  by (induction ws arbitrary: i) (simp_all split: nat.split)

lemma list_all_nthD: "list_all P ws \<Longrightarrow> i < length ws \<Longrightarrow> P (ws ! i)"
  by (simp add: list_all_length)

lemma dest_inv1_step:
  assumes "dest_inv1 p"
  shows "dest_inv1 (step1 host quality images outputPath t p)"
proof (cases rule: step1_cases [of t _ p])
  case main
  show ?thesis
  proof (cases "mainpc1 p")
    case (Dispatching rest)
    with main assms show ?thesis
      by (cases rest)
        (auto simp add: dest_inv1_def webp_dest_def destFilename_def Let_def Ext_Join_webp
          split: option.split)
  qed (use main assms in \<open>auto simp add: dest_inv1_def pool1_simps split: list.split\<close>)
next
  case closer
  with assms show ?thesis by (cases "closer p") (auto simp add: dest_inv1_def)
next
  case (idle i)
  with assms show ?thesis by simp
next
  case (worker i)
  from assms worker(2) have here: "list_all webp_dest (to_encode (workers1 p ! i))"
    by (simp add: dest_inv1_def list_all_length)
  show ?thesis
    using assms here worker(2) unfolding worker(1)
    by (cases "workers1 p ! i")
      (auto simp add: dest_inv1_def pool1_simps Let_def list_all_update
        split: list.split option.split)
qed

lemma files_inv1_step:
  assumes "files_inv1 w p" and "dest_inv1 p"
  shows "files_inv1 w (step1 host quality images outputPath t p)"
proof (cases rule: step1_cases [of t _ p])
  case main
  show ?thesis
  proof (cases "mainpc1 p")
    case (Dispatching rest)
    with main assms show ?thesis
      by (cases rest) (auto simp add: files_inv1_def split: option.split)
  qed (use main assms in \<open>auto simp add: files_inv1_def pool1_simps split: list.split\<close>)
next
  case closer
  with assms show ?thesis by (cases "closer p") (auto simp add: files_inv1_def)
next
  case (idle i)
  with assms show ?thesis by simp
next
  case (worker i)
  from assms(2) worker(2) have here: "list_all webp_dest (to_encode (workers1 p ! i))"
    by (simp add: dest_inv1_def list_all_length)
  show ?thesis
    using assms(1) here worker(2) unfolding worker(1)
    by (cases "workers1 p ! i")
      (auto simp add: files_inv1_def pool1_simps Let_def webp_dest_def
        split: list.split option.split)
qed

lemma sent_inv1_step:
  assumes "sent_inv1 images outputPath w p" and "files_inv1 w p"
  shows "sent_inv1 images outputPath w (step1 host quality images outputPath t p)"
proof (cases rule: step1_cases [of t _ p])
  case main
  show ?thesis
  proof (cases "mainpc1 p")
    case (Dispatching rest)
    show ?thesis
    proof (cases rest)
      case Nil
      with Dispatching main assms show ?thesis by (simp add: sent_inv1_def)
    next
      case (Cons imgPath rest')
      with Dispatching assms(1) have "Ext imgPath \<noteq> ''.webp''" by (simp add: sent_inv1_def)
      with assms(2) have "files (world1 p) imgPath = files w imgPath"
        by (simp add: files_inv1_def)
      with Cons Dispatching main assms(1) show ?thesis
        by (auto simp add: sent_inv1_def statable_def job1_def size_of_def split: option.split)
    qed
  qed (use main assms in \<open>auto simp add: sent_inv1_def pool1_simps split: list.split\<close>)
next
  case closer
  with assms show ?thesis by (cases "closer p") (auto simp add: sent_inv1_def)
next
  case (idle i)
  with assms show ?thesis by simp
next
  case (worker i)
  show ?thesis
    using assms(1) worker(2) unfolding worker(1)
    by (cases "workers1 p ! i")
      (auto simp add: sent_inv1_def pool1_simps Let_def split: list.split option.split)
qed

lemma reach_sent1:
  assumes "list_all (\<lambda>i. Ext i \<noteq> ''.webp'') images"
  shows "sent_inv1 images outputPath w (exec1 host quality images outputPath sched (init_pool1 w))"
    and "files_inv1 w (exec1 host quality images outputPath sched (init_pool1 w))"
proof -
  have "sent_inv1 images outputPath w (exec1 host quality images outputPath sched (init_pool1 w)) \<and>
        files_inv1 w (exec1 host quality images outputPath sched (init_pool1 w)) \<and>
        dest_inv1 (exec1 host quality images outputPath sched (init_pool1 w))"
  proof (rule exec1_induct)
    show "sent_inv1 images outputPath w (init_pool1 w) \<and> files_inv1 w (init_pool1 w) \<and>
        dest_inv1 (init_pool1 w)"
      using assms by (simp add: sent_inv1_def files_inv1_def dest_inv1_def init_pool1_def)
  next
    fix t p
    assume "sent_inv1 images outputPath w p \<and> files_inv1 w p \<and> dest_inv1 p"
    then show "sent_inv1 images outputPath w (step1 host quality images outputPath t p) \<and>
        files_inv1 w (step1 host quality images outputPath t p) \<and>
        dest_inv1 (step1 host quality images outputPath t p)"
      by (simp add: sent_inv1_step files_inv1_step dest_inv1_step)
  qed
  then show "sent_inv1 images outputPath w (exec1 host quality images outputPath sched (init_pool1 w))"
    and "files_inv1 w (exec1 host quality images outputPath sched (init_pool1 w))"
    by simp_all
qed

lemma dispatched_unvisited: "dispatched pc \<Longrightarrow> unvisited images pc = [] \<and> offered pc = []"
  by (cases pc) simp_all

lemma final_sent1:
  assumes "list_all (\<lambda>i. Ext i \<noteq> ''.webp'') images"
    and "mainpc1 (exec1 host quality images outputPath sched (init_pool1 w)) = Returned"
  shows "sent (exec1 host quality images outputPath sched (init_pool1 w)) =
           map (job1 outputPath w) (filter (statable w) images)"
  using reach_sent1(1) [OF assms(1), of outputPath w host quality sched] assms(2)
  by (simp add: sent_inv1_def)

lemma ext_scan_append: "ext_scan xs acc \<noteq> [] \<Longrightarrow> ext_scan (xs @ ys) acc = ext_scan xs acc"
  by (induction xs acc rule: ext_scan.induct) (auto split: if_split_asm)

lemma Ext_Join: "Ext name \<noteq> [] \<Longrightarrow> Ext (Join dir name) = Ext name"
  by (simp add: Ext_def Join_def ext_scan_append)

lemma valid_not_webp: "validExts (ToLower x) \<Longrightarrow> x \<noteq> [] \<and> x \<noteq> ''.webp''"
  by (auto simp add: validExts_def ToLower_def lower_byte_def)

lemma scan_loop_filter:
  "scan_loop dir entries =
     map (\<lambda>e. Join dir (Name e))
       (filter (\<lambda>e. \<not> IsDir e \<and> validExts (ToLower (Ext (Name e)))) entries)"
  by (induction entries) simp_all

lemma scan_loop_not_webp: "list_all (\<lambda>i. Ext i \<noteq> ''.webp'') (scan_loop dir entries)"
proof (induction entries)
  case Nil
  show ?case by simp
next
  case (Cons e entries)
  then show ?case using valid_not_webp [of "Ext (Name e)"] by (simp add: Ext_Join)
qed

section \<open>Properties of the two main functions\<close>

lemma validExts_iff_spec:
  "validExts (ToLower (Ext name)) \<longleftrightarrow>
   (\<exists>x y. extension_is name x \<and> y \<in> set supported_extensions1 \<and> same_ignoring_case x y)"
proof
  assume img: "validExts (ToLower (Ext name))"
  then have ne: "Ext name \<noteq> []" by (auto simp: validExts_def ToLower_def)
  with Ext_shape [of name] obtain x where x: "extension_is name x" "Ext name = ''.'' @ x"
    by blast
  from img x(2) have "\<exists>y \<in> set supported_extensions1. map lower_byte x = map lower_byte y"
    by (auto simp: validExts_def ToLower_def supported_extensions1_def lower_byte_def)
  with x(1) show "\<exists>x y. extension_is name x \<and> y \<in> set supported_extensions1 \<and>
      same_ignoring_case x y"
    by (auto simp: same_ignoring_case_def)
next
  assume "\<exists>x y. extension_is name x \<and> y \<in> set supported_extensions1 \<and> same_ignoring_case x y"
  then obtain x y where h: "extension_is name x" "y \<in> set supported_extensions1"
    "map lower_byte x = map lower_byte y"
    by (auto simp: same_ignoring_case_def)
  have "ToLower (Ext name) = lower_byte CHR ''.'' # map lower_byte y"
    using Ext_of_extension [OF h(1)] h(3) by (simp add: ToLower_def)
  with h(2) show "validExts (ToLower (Ext name))"
    by (auto simp: validExts_def supported_extensions1_def lower_byte_def)
qed

lemma eligible_spec1_code:
  "(\<lambda>e. \<not> IsDir e \<and> validExts (ToLower (Ext (Name e)))) = eligible_spec1"
  by (rule ext) (simp add: eligible_spec1_def validExts_iff_spec)

lemma scan_loop_eligible:
  "scan_loop dir entries = map (\<lambda>e. Join dir (Name e)) (filter eligible_spec1 entries)"
  by (simp add: scan_loop_filter eligible_spec1_code)

lemma prints_refl: "prints w w"
proof -
  have "w = w\<lparr>trace := trace w @ map Out []\<rparr>" by simp
  then show ?thesis unfolding prints_def by blast
qed

lemma prints_say: "prints w w' \<Longrightarrow> prints w (say m w')"
proof -
  assume "prints w w'"
  then obtain ms where "w' = w\<lparr>trace := trace w @ map Out ms\<rparr>" by (auto simp add: prints_def)
  then have "say m w' = w\<lparr>trace := trace w @ map Out (ms @ [m])\<rparr>" by (simp add: say_def)
  then show ?thesis unfolding prints_def by blast
qed

lemma prints_files: "prints w w' \<Longrightarrow> files w' = files w \<and> dirs w' = dirs w \<and> stdin w' = stdin w"
  by (auto simp add: prints_def)

lemma prints_preview_line:
  "prints w (fst st) \<Longrightarrow> prints w (fst (fold preview_line images st))"
proof (induction images arbitrary: st)
  case Nil
  then show ?case by simp
next
  case (Cons i images)
  obtain w' total where st: "st = (w', total)" by (cases st)
  with Cons.prems have "prints w (fst (preview_line i st))"
    by (simp add: preview_line_def prints_say split: option.split)
  then show ?case by (simp add: Cons.IH)
qed

lemma prints_showPreview: "prints w w' \<Longrightarrow> prints w (showPreview images outputPath w')"
proof -
  assume "prints w w'"
  then have "prints w (fst (fold preview_line images (say PreviewTitle w', 0)))"
    by (intro prints_preview_line) (simp add: prints_say)
  then show ?thesis
    by (cases "fold preview_line images (say PreviewTitle w', 0)")
      (simp add: showPreview_def prints_say)
qed

lemma prints_preview: "prints w w' \<Longrightarrow> prints w (preview jobs w')"
proof -
  have "prints w w'' \<Longrightarrow> prints w (fold (\<lambda>j. say (PreviewLine (Base (Source j)) (Base (Dest j)))) jobs w'')"
    for w''
    by (induction jobs arbitrary: w'') (simp_all add: prints_say)
  then show "prints w w' \<Longrightarrow> prints w (preview jobs w')"
    by (simp add: preview_def prints_say)
qed

lemma confirmExecution1_answer:
  "confirmExecution1 w =
     (answer w = Some [] \<or> answer w = Some ''s'' \<or> answer w = Some ''sim'', say Prompt1 w)"
  by (auto simp add: confirmExecution1_def answer_def say_def Let_def split: prod.split)

lemma confirmExecution_answer:
  "confirmExecution w = (answer w = Some ''s'' \<or> answer w = Some ''sim'', say Prompt w)"
  by (auto simp add: confirmExecution_def answer_def say_def Let_def split: prod.split)

lemma answer_prints: "prints w w' \<Longrightarrow> answer w' = answer w"
  by (auto simp add: prints_def answer_def)

lemma main1_cancelled:
  assumes "1 \<le> quality" and "quality \<le> 100"
    and "target args w = Some inputDir" and "path_exists w inputDir"
    and "scanImages inputDir w = Some images" and "images \<noteq> []"
    and "answer w \<notin> {Some [], Some ''s'', Some ''sim''}"
  shows "\<exists>w'. main1 host sched quality False args w = Some (0, w') \<and> prints w w'"
proof -
  let ?w1 = "say (QualityLine quality) (say (FoundImages (length images)) w)"
  let ?w2 = "showPreview images (Join inputDir outputDir) ?w1"
  have p2: "prints w ?w2" by (intro prints_showPreview prints_say prints_refl)
  then have a: "answer ?w2 = answer w" by (rule answer_prints)
  from assms(3) obtain arg rest where args: "args = arg # rest"
    and dir: "(if arg = ''.'' then cwd w else Some arg) = Some inputDir"
    by (cases args) (simp_all add: target_def)
  have "main1 host sched quality False args w = Some (0, say Cancelled (say Prompt1 ?w2))"
    using assms(1,2,4,5,6,7) args dir a
    by (simp add: main1_def main1_until_pool_def Let_def confirmExecution1_answer)
  moreover have "prints w (say Cancelled (say Prompt1 ?w2))"
    using p2 by (intro prints_say)
  ultimately show ?thesis by blast
qed

lemma main1_no_images:
  assumes "1 \<le> quality" and "quality \<le> 100"
    and "target args w = Some inputDir" and "path_exists w inputDir"
    and "listing w inputDir = Some entries" and "filter eligible_spec1 entries = []"
  shows "main1 host sched quality skip args w = Some (0, say NoImages w)"
proof -
  from assms(3) obtain arg rest where args: "args = arg # rest"
    and dir: "(if arg = ''.'' then cwd w else Some arg) = Some inputDir"
    by (cases args) (simp_all add: target_def)
  from assms(5,6) have "scanImages inputDir w = Some []"
    by (simp add: scanImages_def scan_loop_eligible)
  with assms(1,2,4) args dir show ?thesis
    by (simp add: main1_def main1_until_pool_def Let_def)
qed

lemma say_fields:
  "hasFFmpeg (say m w) = hasFFmpeg w" "listing (say m w) = listing w"
  "files (say m w) = files w" "dirs (say m w) = dirs w" "stdin (say m w) = stdin w"
  "cwd (say m w) = cwd w"
  by (simp_all add: say_def)

lemma prints_dirs: "prints w w' \<Longrightarrow> prints (w\<lparr>dirs := dirs w'\<rparr>) w'"
  by (auto simp add: prints_def)

lemma prints_after_mkdir:
  "prints v w' \<Longrightarrow> v = w\<lparr>dirs := d\<rparr> \<Longrightarrow> prints (w\<lparr>dirs := dirs w'\<rparr>) w'"
  by (auto simp add: prints_def)

lemma run_cancelled:
  assumes "hasFFmpeg w" and "listing w (WorkDir cfg) = Some entries"
    and "scan_entries cfg entries \<noteq> []"
    and "Replace cfg \<or> files w (Join (WorkDir cfg) outputDir) = None"
    and "\<not> Skip cfg"
    and "answer w \<notin> {Some ''s'', Some ''sim''}"
  shows "\<exists>w'. main host sched (Inr cfg) w = Some (0, w') \<and> prints (w\<lparr>dirs := dirs w'\<rparr>) w'"
proof (cases "Replace cfg")
  case True
  let ?w2 = "preview (scan_entries cfg entries) (say (WorkingDir (WorkDir cfg)) w)"
  have p2: "prints w ?w2" by (intro prints_preview prints_say prints_refl)
  then have a: "answer ?w2 = answer w" by (rule answer_prints)
  have "main host sched (Inr cfg) w = Some (0, say Cancelled (say Prompt ?w2))"
    using assms(1,2,3,5,6) True a
    by (simp add: main_def run_def run_until_pool_def Let_def confirmExecution_answer say_fields)
  moreover have "prints w (say Cancelled (say Prompt ?w2))"
    using p2 by (intro prints_say)
  ultimately show ?thesis by (auto intro: prints_dirs)
next
  case False
  let ?v = "w\<lparr>dirs := insert (Join (WorkDir cfg) outputDir) (dirs w)\<rparr>"
  let ?w2 = "preview (scan_entries cfg entries) (say (WorkingDir (WorkDir cfg)) ?v)"
  have p2: "prints ?v ?w2" by (intro prints_preview prints_say prints_refl)
  then have "answer ?w2 = answer ?v" by (rule answer_prints)
  then have a: "answer ?w2 = answer w" by (simp add: answer_def)
  from False assms(4)
  have mk: "MkdirAll (Join (WorkDir cfg) outputDir) (say (WorkingDir (WorkDir cfg)) w) =
      Some (say (WorkingDir (WorkDir cfg)) ?v)"
    by (simp add: MkdirAll_def say_def)
  have "main host sched (Inr cfg) w = Some (0, say Cancelled (say Prompt ?w2))"
    using assms(1,2,3,5,6) False a
    by (simp add: main_def run_def run_until_pool_def Let_def confirmExecution_answer mk
        say_fields)
  moreover have "prints ?v (say Cancelled (say Prompt ?w2))"
    using p2 by (intro prints_say)
  then have "prints (w\<lparr>dirs := dirs (say Cancelled (say Prompt ?w2))\<rparr>)
      (say Cancelled (say Prompt ?w2))"
    by (rule prints_after_mkdir) simp
  ultimately show ?thesis by blast
qed


lemma tally_init: "tally pot jpot jobs (init_pool w) = sum_list (map jpot jobs)"
  by (simp add: tally_def init_pool_def wsum_def)

lemma wsum_all_done: "wsum is_busy ws = 0 \<Longrightarrow> pot Done = 0 \<Longrightarrow> wsum pot ws = 0"
proof (induction ws)
  case Nil
  show ?case by (simp add: wsum_def)
next
  case (Cons q ws)
  then show ?case by (cases q) (simp_all add: wsum_def)
qed

lemma wsum_some_done: "wsum is_busy ws = 0 \<Longrightarrow> ws \<noteq> [] \<Longrightarrow> 0 < wsum is_done ws"
proof (cases ws)
  case Nil
  then show "ws \<noteq> [] \<Longrightarrow> 0 < wsum is_done ws" by simp
next
  case (Cons q qs)
  assume "wsum is_busy ws = 0"
  with Cons show "0 < wsum is_done ws"
    by (cases q) (simp_all add: wsum_def)
qed

lemma joined_tally:
  assumes "shape_inv host p" and "mainpc p = Joined" and "0 < NumCPU host" and "pot Done = 0"
  shows "tally pot jpot jobs p = 0"
proof -
  from assms(1,2) have b: "wsum is_busy (workers p) = 0" and l: "length (workers p) = NumCPU host"
    and c: "0 < wsum is_done (workers p) \<longrightarrow> chan p = []"
    by (simp_all add: shape_inv_def)
  from l assms(3) have "workers p \<noteq> []" by auto
  with b have "0 < wsum is_done (workers p)" by (rule wsum_some_done)
  with c have "chan p = []" by simp
  with b assms(2,4) show ?thesis
    by (simp add: tally_def wsum_all_done)
qed

lemma budget_one: "sum_list (map (jdue fl None one) jobs) = of_nat (length jobs)"
  by (induction jobs) (simp_all add: due_simps)

lemma budget_one_path:
  "sum_list (map (jdue fl (Some b) one) jobs) = of_nat (length (filter (\<lambda>j. fl j = b) jobs))"
  by (induction jobs) (simp_all add: due_simps)



lemma reach_shape: "shape_inv host (exec host cfg jobs sched (init_pool w))"
proof (rule exec_induct)
  show "shape_inv host (init_pool w)"
    by (simp add: shape_inv_def init_pool_def wsum_def)
qed (rule shape_inv_step)

lemma reach_mutex: "mutex_inv (exec host cfg jobs sched (init_pool w))"
proof (rule exec_induct)
  show "mutex_inv (init_pool w)"
    by (simp add: mutex_inv_def init_pool_def wsum_def)
qed (rule mutex_inv_step)

lemma reach_total: "total_inv host cfg jobs (exec host cfg jobs sched (init_pool w))"
proof (rule exec_induct)
  show "total_inv host cfg jobs (init_pool w)"
    unfolding total_inv_def tally_init by (simp add: init_pool_def no_stats_def)
qed (rule total_inv_step)

lemma reach_failed: "failed_inv host cfg jobs (exec host cfg jobs sched (init_pool w))"
proof (rule exec_induct)
  show "failed_inv host cfg jobs (init_pool w)"
    unfolding failed_inv_def tally_init by (simp add: init_pool_def no_stats_def)
qed (rule failed_inv_step)

lemma reach_converted: "converted_inv host cfg jobs (exec host cfg jobs sched (init_pool w))"
proof (rule exec_induct)
  show "converted_inv host cfg jobs (init_pool w)"
    unfolding converted_inv_def tally_init by (simp add: init_pool_def no_stats_def)
qed (rule converted_inv_step)

lemma reach_before: "before_inv b a jobs (exec host cfg jobs sched (init_pool w))"
proof (rule exec_induct)
  show "before_inv b a jobs (init_pool w)"
    unfolding before_inv_def tally_init by (simp add: init_pool_def no_stats_def)
qed (rule before_inv_step)

lemma reach_after: "after_inv host cfg b a jobs (exec host cfg jobs sched (init_pool w))"
proof (rule exec_induct)
  show "after_inv host cfg b a jobs (init_pool w)"
    unfolding after_inv_def tally_init by (simp add: init_pool_def no_stats_def)
qed (rule after_inv_step)



lemma reach_removing: "removing_inv cfg (exec host cfg jobs sched (init_pool w))"
proof (rule exec_induct)
  show "removing_inv cfg (init_pool w)"
    by (simp add: removing_inv_def init_pool_def wsum_def)
qed (rule removing_inv_step)



lemma reach_order: "order_inv cfg w (exec host cfg jobs sched (init_pool w))"
proof -
  have "order_inv cfg w (exec host cfg jobs sched (init_pool w)) \<and>
        files_inv w (exec host cfg jobs sched (init_pool w)) \<and>
        removing_inv cfg (exec host cfg jobs sched (init_pool w))"
  proof (rule exec_induct)
    show "order_inv cfg w (init_pool w) \<and> files_inv w (init_pool w) \<and>
        removing_inv cfg (init_pool w)"
      by (simp add: order_inv_def files_inv_def events_since_def init_pool_def replay_def
          removing_inv_def wsum_def)
  next
    fix t p
    assume "order_inv cfg w p \<and> files_inv w p \<and> removing_inv cfg p"
    then show "order_inv cfg w (step host cfg jobs t p) \<and> files_inv w (step host cfg jobs t p) \<and>
        removing_inv cfg (step host cfg jobs t p)"
      by (simp add: order_inv_step files_inv_step removing_inv_step)
  qed
  then show ?thesis ..
qed

lemma due_Done: "due fl path k u Done = 0"
  by (simp add: due_def)

lemma joined_tally_reach:
  assumes "0 < NumCPU host" and "mainpc (exec host cfg jobs sched (init_pool w)) = Joined"
    and "pot Done = 0"
  shows "tally pot jpot jobs (exec host cfg jobs sched (init_pool w)) = 0"
  using reach_shape assms(2,1,3) by (rule joined_tally)

lemma final_total:
  assumes "0 < NumCPU host" and "mainpc (exec host cfg jobs sched (init_pool w)) = Joined"
  shows "Total (stats (exec host cfg jobs sched (init_pool w))) = of_nat (length jobs)"
  using reach_total [of host cfg jobs sched w]
    assms
  by (simp add: total_inv_def budget_one joined_tally_reach due_Done)

lemma final_failed:
  assumes "0 < NumCPU host" and "mainpc (exec host cfg jobs sched (init_pool w)) = Joined"
  shows "Failed (stats (exec host cfg jobs sched (init_pool w))) =
         of_nat (length (filter (invocation_fails host cfg) jobs))"
  using reach_failed [of host cfg jobs sched w]
    assms
  by (simp add: failed_inv_def budget_one_path joined_tally_reach due_Done)

lemma final_converted:
  assumes "0 < NumCPU host" and "mainpc (exec host cfg jobs sched (init_pool w)) = Joined"
  shows "Converted (stats (exec host cfg jobs sched (init_pool w))) =
         of_nat (length (filter (\<lambda>j. \<not> invocation_fails host cfg j) jobs))"
  using reach_converted [of host cfg jobs sched w]
    assms
  by (simp add: converted_inv_def budget_one_path joined_tally_reach due_Done)








lemma effect_writes: "writes s e \<Longrightarrow> \<exists>sz. effect e f s = Some sz"
  by (induction e f rule: effect.induct) auto
























lemma in_convert_count: "wsum in_convert ws = length (filter holds_mutex ws)"
proof (induction ws)
  case Nil
  show ?case by (simp add: wsum_def)
next
  case (Cons q ws)
  then show ?case by (cases q) (simp_all add: wsum_def)
qed

lemma in_flight_le: "length (filter in_flight ws) \<le> length (filter holds_mutex ws)"
proof (induction ws)
  case Nil
  show ?case by simp
next
  case (Cons q ws)
  then show ?case by (cases q) simp_all
qed

text \<open>
  C2. In every state the pool can reach, under any schedule and for any number of
  workers: at most one worker is inside \<open>cmd.Run()\<close>, and the mutex is held exactly
  when one worker is between \<open>ffmpegMutex.Lock()\<close> and the deferred
  \<open>ffmpegMutex.Unlock()\<close> of \<open>convert\<close>, never by two. So the lock is taken
  before every invocation, and it is free again whenever no worker is inside
  \<open>convert\<close>, whether the invocation failed or not.
\<close>

theorem C2_one_invocation_at_a_time:
  "length (filter in_flight (workers (exec host cfg jobs sched (init_pool w)))) \<le> 1 \<and>
   length (filter holds_mutex (workers (exec host cfg jobs sched (init_pool w)))) =
     (if mutex (exec host cfg jobs sched (init_pool w)) then 1 else 0)"
proof -
  have m: "length (filter holds_mutex (workers (exec host cfg jobs sched (init_pool w)))) =
     (if mutex (exec host cfg jobs sched (init_pool w)) then 1 else 0)"
    using reach_mutex [of host cfg jobs sched w]
    by (simp add: mutex_inv_def in_convert_count)
  moreover have "length (filter in_flight (workers (exec host cfg jobs sched (init_pool w)))) \<le> 1"
    using in_flight_le [of "workers (exec host cfg jobs sched (init_pool w))"] m
    by (simp split: if_split_asm)
  ultimately show ?thesis by simp
qed

text \<open>
  C3. A run without \<open>-skip\<close> and without \<open>-replace\<close> over a directory with two
  images, answered \<open>n\<close>: the process exits with status 0 and converts nothing, but the
  output subdirectory has been made, because \<open>run\<close> calls \<open>os.MkdirAll\<close>
  before it asks.
\<close>

theorem C3_directory_made_before_the_prompt:
  "main (demo_host 2) [] (Inr (demo_cfg False False)) (demo_world [CHR ''n'', CHR 0x0A]) =
     Some (0, (demo_world [CHR ''n'', CHR 0x0A])
        \<lparr>dirs := {''/pics/compressed'', ''/pics''},
         trace := [Out (WorkingDir ''/pics''), Out PreviewHeader,
                   Out (PreviewLine ''a.png'' ''a.webp''), Out (PreviewLine ''b.jpg'' ''b.webp''),
                   Out Prompt, Out Cancelled]\<rparr>)"
  by (simp add: main_def run_def run_until_pool_def demo_world_def demo_cfg_def say_def
      MkdirAll_def Let_def demo_entries_def HasPrefix_def isImage_def Ext_def
      ToLower_def lower_byte_def job_for_def Join_def TrimSuffix_def HasSuffix_def outputDir_def
      confirmExecution_def preview_def ReadString_def TrimSpace_def is_space_def Base_def)







lemma advance_to_Encoded:
  assumes "advance cfg ph j' a = Some (Encoded j True)"
  shows "j' = j \<and> (\<exists>out. a = Encode None out)"
  using assms by (cases ph; cases a) (simp_all split: if_split_asm)

lemma advance_StatDest:
  assumes "advance cfg ph j (StatDest r) \<noteq> None"
  shows "ph = Encoded j True"
  using assms by (cases ph) (simp_all split: if_split_asm)

lemma follows_ends_Encoded:
  assumes "follows cfg Fresh xs = Some (Encoded j True)"
  shows "\<exists>earlier out. xs = earlier @ [(j, Encode None out)]"
proof (cases xs rule: rev_cases)
  case Nil
  with assms show ?thesis by simp
next
  case (snoc ys x)
  obtain j' a where x: "x = (j', a)" by (cases x)
  from assms snoc x obtain ph where "advance cfg ph j' a = Some (Encoded j True)"
    by (auto simp add: follows_append split: option.split_asm)
  then have "j' = j \<and> (\<exists>out. a = Encode None out)" by (rule advance_to_Encoded)
  with snoc x show ?thesis by auto
qed

lemma follows_before_StatDest:
  assumes "follows cfg Fresh (before @ (j, StatDest r) # after) \<noteq> None"
  shows "\<exists>earlier out. before = earlier @ [(j, Encode None out)]"
proof -
  from assms obtain ph where ph: "follows cfg Fresh before = Some ph"
    and adv: "advance cfg ph j (StatDest r) \<noteq> None"
    by (auto simp add: follows_append split: option.split_asm)
  from adv have "ph = Encoded j True" by (rule advance_StatDest)
  with ph show ?thesis by (simp add: follows_ends_Encoded)
qed

text \<open>
  C7. In every state the pool can reach, the events of each worker, in the order in which
  they happened, are runs of jobs, each in the order: stat of the source, encoder
  invocation, then either the failure report, or stat of the destination, removal of
  the source (in replacement mode, and only then) and the completion line. In
  particular the event just before a stat of a destination is the successful
  invocation of the encoder for the same job, by the same worker.
\<close>

theorem C7_steps_of_a_job_in_order:
  "follows cfg Fresh (own i (events_since w (exec host cfg jobs sched (init_pool w)))) \<noteq> None \<and>
   (\<forall>before j r after.
      own i (events_since w (exec host cfg jobs sched (init_pool w))) =
        before @ (j, StatDest r) # after \<longrightarrow>
      (\<exists>earlier out. before = earlier @ [(j, Encode None out)]))"
proof -
  have acc: "follows cfg Fresh (own i (events_since w (exec host cfg jobs sched (init_pool w))))
      \<noteq> None"
    using reach_order [of cfg w host jobs sched] by (simp add: order_inv_def)
  then show ?thesis
    by (metis follows_before_StatDest)
qed

theorem C7_witness:
  "own 1 (events_since (demo_world [])
      (exec (demo_host 2) (demo_cfg True False) demo_jobs demo_sched2
        (init_pool (demo_world [])))) =
     [(demo_jobs ! 1, StatSource (Some 1000000))] @
       (demo_jobs ! 1, Encode (Some ''bad input'') None) #
       [(demo_jobs ! 1, Report (ConvertError ''b.jpg''))] \<and>
   own 0 (events_since (demo_world [])
      (exec (demo_host 2) (demo_cfg True False) demo_jobs demo_sched2
        (init_pool (demo_world [])))) =
     [(demo_jobs ! 0, StatSource (Some 2000000)), (demo_jobs ! 0, Encode None (Some 500000))] @
       (demo_jobs ! 0, StatDest (Some 500000)) #
       [(demo_jobs ! 0, Report (ConvertedLine ''a.png'' ''a.webp''))] \<and>
   (\<exists>earlier out.
      [(demo_jobs ! 0, StatSource (Some 2000000)), (demo_jobs ! 0, Encode None (Some 500000))] =
        earlier @ [(demo_jobs ! 0, Encode None out)])"
proof -
  have e1: "own 1 (events_since (demo_world [])
      (exec (demo_host 2) (demo_cfg True False) demo_jobs demo_sched2
        (init_pool (demo_world [])))) =
     [(demo_jobs ! 1, StatSource (Some 1000000))] @
       (demo_jobs ! 1, Encode (Some ''bad input'') None) #
       [(demo_jobs ! 1, Report (ConvertError ''b.jpg''))]" by code_simp
  have e0: "own 0 (events_since (demo_world [])
      (exec (demo_host 2) (demo_cfg True False) demo_jobs demo_sched2
        (init_pool (demo_world [])))) =
     [(demo_jobs ! 0, StatSource (Some 2000000)), (demo_jobs ! 0, Encode None (Some 500000))] @
       (demo_jobs ! 0, StatDest (Some 500000)) #
       [(demo_jobs ! 0, Report (ConvertedLine ''a.png'' ''a.webp''))]" by code_simp
  from C7_steps_of_a_job_in_order [of "demo_cfg True False" 0 "demo_world []" "demo_host 2"
      demo_jobs demo_sched2] e0
  have "\<exists>earlier out.
      [(demo_jobs ! 0, StatSource (Some 2000000)), (demo_jobs ! 0, Encode None (Some 500000))] =
        earlier @ [(demo_jobs ! 0, Encode None out)]"
    by blast
  with e0 e1 show ?thesis by blast
qed


text \<open>
  C9. Take a job list whose invocations all succeed, and two completed runs of the pool
  over it, one on a host with one processor and one on a host with more, with the same
  encoder. If in both runs every job saw the same sizes (\<open>b j\<close> before, \<open>a j\<close>
  after), the two final \<open>Stats\<close> are equal, field by field.
\<close>

theorem C9_width_does_not_change_stats:
  assumes "NumCPU host1 = 1" and "1 < NumCPU hostN" and "ffmpeg hostN = ffmpeg host1"
    and "\<forall>j \<in> set jobs. \<not> invocation_fails host1 cfg j"
    and "mainpc (exec host1 cfg jobs sched1 (init_pool w1)) = Joined"
    and "mainpc (exec hostN cfg jobs schedN (init_pool wN)) = Joined"
    and "fixed_sizes b a (trace (world (exec host1 cfg jobs sched1 (init_pool w1))))"
    and "fixed_sizes b a (trace (world (exec hostN cfg jobs schedN (init_pool wN))))"
  shows "stats (exec hostN cfg jobs schedN (init_pool wN)) =
         stats (exec host1 cfg jobs sched1 (init_pool w1))"
proof -
  have same: "invocation_fails hostN cfg = invocation_fails host1 cfg"
    using assms(3) by (simp add: invocation_fails_def fun_eq_iff)
  have none: "filter (invocation_fails host1 cfg) jobs = []"
    using assms(4) by (simp add: filter_empty_conv)
  have all: "filter (\<lambda>j. \<not> invocation_fails host1 cfg j) jobs = jobs"
    using assms(4) by (simp add: filter_id_conv)
  have after_sum: "(\<Sum>j\<leftarrow>jobs. if invocation_fails host1 cfg j then 0 else size_of (a j)) =
      (\<Sum>j\<leftarrow>jobs. size_of (a j))"
    using assms(4) by (induction jobs) simp_all
  have pos1: "0 < NumCPU host1" and posN: "0 < NumCPU hostN" using assms(1,2) by simp_all
  let ?p1 = "exec host1 cfg jobs sched1 (init_pool w1)"
  let ?pN = "exec hostN cfg jobs schedN (init_pool wN)"
  have b1: "SizeBefore (stats ?p1) = (\<Sum>j\<leftarrow>jobs. size_of (b j))"
    using reach_before [of b a jobs host1 cfg sched1 w1] assms(7)
      assms(5) pos1
    by (simp add: before_inv_def joined_tally_reach)
  have bN: "SizeBefore (stats ?pN) = (\<Sum>j\<leftarrow>jobs. size_of (b j))"
    using reach_before [of b a jobs hostN cfg schedN wN] assms(8)
      assms(6) posN
    by (simp add: before_inv_def joined_tally_reach)
  have a1: "SizeAfter (stats ?p1) = (\<Sum>j\<leftarrow>jobs. size_of (a j))"
    using reach_after [of host1 cfg b a jobs sched1 w1] assms(7)
      assms(5) pos1
    by (simp add: after_inv_def after_sum joined_tally_reach)
  have aN: "SizeAfter (stats ?pN) = (\<Sum>j\<leftarrow>jobs. size_of (a j))"
    using reach_after [of hostN cfg b a jobs schedN wN] assms(8)
      assms(6) posN
    by (simp add: after_inv_def after_sum same joined_tally_reach)
  have "Total (stats ?pN) = Total (stats ?p1)"
    by (simp add: final_total [OF pos1 assms(5)] final_total [OF posN assms(6)])
  moreover have "Converted (stats ?pN) = Converted (stats ?p1)"
    by (simp add: final_converted [OF pos1 assms(5)] final_converted [OF posN assms(6)] same)
  moreover have "Failed (stats ?pN) = Failed (stats ?p1)"
    by (simp add: final_failed [OF pos1 assms(5)] final_failed [OF posN assms(6)] same)
  moreover have "SizeBefore (stats ?pN) = SizeBefore (stats ?p1)" by (simp add: b1 bN)
  moreover have "SizeAfter (stats ?pN) = SizeAfter (stats ?p1)" by (simp add: a1 aN)
  ultimately show ?thesis by (simp add: Stats.equality)
qed

theorem C9_witness:
  "NumCPU (good_host 1) = 1 \<and> 1 < NumCPU (good_host 2) \<and>
   ffmpeg (good_host 2) = ffmpeg (good_host 1) \<and>
   filter (invocation_fails (good_host 1) (demo_cfg True False)) demo_jobs = [] \<and>
   mainpc (exec (good_host 1) (demo_cfg True False) demo_jobs demo_sched1
     (init_pool (demo_world []))) = Joined \<and>
   mainpc (exec (good_host 2) (demo_cfg True False) demo_jobs demo_sched2
     (init_pool (demo_world []))) = Joined \<and>
   fixed_sizes demo_before demo_after
     (trace (world (exec (good_host 1) (demo_cfg True False) demo_jobs demo_sched1
       (init_pool (demo_world []))))) \<and>
   fixed_sizes demo_before demo_after
     (trace (world (exec (good_host 2) (demo_cfg True False) demo_jobs demo_sched2
       (init_pool (demo_world []))))) \<and>
   stats (exec (good_host 2) (demo_cfg True False) demo_jobs demo_sched2
     (init_pool (demo_world []))) =
   stats (exec (good_host 1) (demo_cfg True False) demo_jobs demo_sched1
     (init_pool (demo_world [])))"
proof -
  have h1: "NumCPU (good_host 1) = 1" by (simp add: good_host_def)
  have h2: "1 < NumCPU (good_host 2)" by (simp add: good_host_def)
  have h3: "ffmpeg (good_host 2) = ffmpeg (good_host 1)" by (simp add: good_host_def)
  have h4: "\<forall>j \<in> set demo_jobs. \<not> invocation_fails (good_host 1) (demo_cfg True False) j"
    by (simp add: demo_jobs_def invocation_fails_def good_host_def good_ffmpeg_def
        convert_error_def)
  have h5: "mainpc (exec (good_host 1) (demo_cfg True False) demo_jobs demo_sched1
     (init_pool (demo_world []))) = Joined" by code_simp
  have h6: "mainpc (exec (good_host 2) (demo_cfg True False) demo_jobs demo_sched2
     (init_pool (demo_world []))) = Joined" by code_simp
  have h7: "fixed_sizes demo_before demo_after
     (trace (world (exec (good_host 1) (demo_cfg True False) demo_jobs demo_sched1
       (init_pool (demo_world [])))))" by code_simp
  have h8: "fixed_sizes demo_before demo_after
     (trace (world (exec (good_host 2) (demo_cfg True False) demo_jobs demo_sched2
       (init_pool (demo_world [])))))" by code_simp
  have h4': "filter (invocation_fails (good_host 1) (demo_cfg True False)) demo_jobs = []"
    using h4 by (simp add: filter_empty_conv)
  from C9_width_does_not_change_stats [OF h1 h2 h3 h4 h5 h6 h7 h8] h1 h2 h3 h4' h5 h6 h7 h8
  show ?thesis by blast
qed



end
